theory Spec2Isabelle
  imports Complex_Main "HOL-Library.Sublist"
begin

section \<open>Python values used by the client\<close>

text \<open>
  Exceptions are values: every \<^verbatim>\<open>raise\<close> of the source, and every failure of the
  HTTP transport, is an \<open>Inl\<close> of the result type \<open>error + 'a\<close>.
\<close>

datatype error =
    ValueError string
  | TypeError
  | JSONDecodeError
  | HTTPStatusError nat
  | TimeoutException
  | ConnectError
  | ZeroDivisionError
  | OverflowError

text \<open>
  A field of a JSON object is absent, present with the value \<^verbatim>\<open>null\<close>, or present
  with a value: \<^verbatim>\<open>d.get(k)\<close>, \<^verbatim>\<open>d.get(k) or []\<close> and \<^verbatim>\<open>d.get(k, default)\<close> differ on
  the first two.
\<close>

datatype 'a field = Absent | Null | Present 'a

text \<open>\<^verbatim>\<open>str(n)\<close> for an integer: decimal digits, a minus sign when negative.\<close>

definition digit_char :: "nat \<Rightarrow> char" where
  "digit_char d = ''0123456789'' ! d"

fun str_nat :: "nat \<Rightarrow> string" where
  "str_nat n = (if n < 10 then [digit_char n] else str_nat (n div 10) @ [digit_char (n mod 10)])"

declare str_nat.simps [simp del]

definition str_int :: "int \<Rightarrow> string" where
  "str_int i = (if i < 0 then CHR ''-'' # str_nat (nat (- i)) else str_nat (nat i))"

text \<open>\<^verbatim>\<open>str(b).lower()\<close> for a boolean.\<close>

definition str_bool_lower :: "bool \<Rightarrow> string" where
  "str_bool_lower b = (if b then ''true'' else ''false'')"

text \<open>\<^verbatim>\<open>s.rstrip("/")\<close>: every trailing slash is removed.\<close>

definition rstrip_slash :: "string \<Rightarrow> string" where
  "rstrip_slash s = rev (dropWhile (\<lambda>c. c = CHR ''/'') (rev s))"

text \<open>\<^verbatim>\<open>sep.join(xs)\<close>.\<close>

fun join :: "string \<Rightarrow> string list \<Rightarrow> string" where
  "join sep [] = []"
| "join sep [x] = x"
| "join sep (x # y # ys) = x @ sep @ join sep (y # ys)"

text \<open>
  The slice \<^verbatim>\<open>xs[:n]\<close>: the first \<open>n\<close> elements, and for a negative \<open>n\<close> all but the
  last \<open>-n\<close>.
\<close>

definition py_take :: "int \<Rightarrow> 'a list \<Rightarrow> 'a list" where
  "py_take n xs = (if n < 0 then take (nat (int (length xs) + n)) xs else take (nat n) xs)"

text \<open>
  \<^verbatim>\<open>range(start, stop, step)\<close>: a zero step raises \<^verbatim>\<open>ValueError\<close>; otherwise the
  elements are \<open>start + k * step\<close> for \<open>k\<close> below the length that CPython computes.
\<close>

definition range_len :: "int \<Rightarrow> int \<Rightarrow> int \<Rightarrow> nat" where
  "range_len start stop step =
     (if 0 < step then (if start < stop then nat ((stop - start - 1) div step + 1) else 0)
      else (if stop < start then nat ((start - stop - 1) div (- step) + 1) else 0))"

definition py_range :: "int \<Rightarrow> int \<Rightarrow> int \<Rightarrow> error + int list" where
  "py_range start stop step =
     (if step = 0 then Inl (ValueError ''range() arg 3 must not be zero'')
      else Inr (map (\<lambda>k. start + int k * step) [0 ..< range_len start stop step]))"

section \<open>The HTTP transport\<close>

text \<open>
  A request as \<^verbatim>\<open>self._client.request\<close> receives it. \<open>params\<close> is the query dictionary in
  insertion order; \<open>accept\<close> is the \<^verbatim>\<open>Accept\<close> header in force (the client's default
  \<^verbatim>\<open>application/json\<close>, or the one the call passes).
\<close>

record request =
  http_method :: string
  url :: string
  params :: "(string \<times> string) list"
  accept :: string

text \<open>The body of a search response: both fields are optional.\<close>

record 'r search_json =
  results :: "'r list field"
  numFound :: "int field"

text \<open>
  A response: its status code, what \<^verbatim>\<open>response.json()\<close> gives (\<open>None\<close> when the body
  is not a JSON object, where the call raises), and \<^verbatim>\<open>response.text\<close>.
\<close>

record 'r response =
  status_code :: nat
  json :: "'r search_json option"
  body_text :: string

text \<open>
  The transport is the external collaborator: it answers a request with a response, or
  fails (timeout, connection failure).
\<close>

type_synonym 'r transport = "request \<Rightarrow> error + 'r response"

text \<open>\<^verbatim>\<open>response.raise_for_status()\<close>: any status outside 2xx raises.\<close>

definition raise_for_status :: "'r response \<Rightarrow> error + 'r response" where
  "raise_for_status resp =
     (if 200 \<le> status_code resp \<and> status_code resp \<le> 299 then Inr resp
      else Inl (HTTPStatusError (status_code resp)))"

text \<open>
  \<^verbatim>\<open>asyncio.gather(*tasks)\<close>: every task is started, so the requests of all of them are
  issued; the call raises when some task raised, and otherwise returns the results in
  the order of the tasks. Which exception is raised when several tasks fail depends on
  the order of completion: the model takes the first in task order.
\<close>

fun gather :: "((error + 'a) \<times> request list) list \<Rightarrow> (error + 'a list) \<times> request list" where
  "gather [] = (Inr [], [])"
| "gather ((r, l) # ts) =
     (case gather ts of (rs, ls) \<Rightarrow>
        (case r of
           Inl e \<Rightarrow> (Inl e, l @ ls)
         | Inr v \<Rightarrow> (case rs of Inl e \<Rightarrow> (Inl e, l @ ls) | Inr vs \<Rightarrow> (Inr (v # vs), l @ ls))))"

text \<open>
  \<^verbatim>\<open>asyncio.gather(*tasks, return_exceptions=True)\<close>: every task is started, and each
  slot holds the result or the exception of its own task.
\<close>

fun gather_return_exceptions ::
  "((error + 'a) \<times> request list) list \<Rightarrow> (error + 'a) list \<times> request list" where
  "gather_return_exceptions [] = ([], [])"
| "gather_return_exceptions ((r, l) # ts) =
     (case gather_return_exceptions ts of (rs, ls) \<Rightarrow> (r # rs, l @ ls))"

section \<open>The client (igloo.py)\<close>

datatype ApplicationType =
  BLOG | WIKI | DOCUMENT | FORUM | GALLERY | CALENDAR | PAGES | PEOPLE | SPACE | MICROBLOG

fun application_value :: "ApplicationType \<Rightarrow> int" where
  "application_value BLOG = 1"
| "application_value WIKI = 2"
| "application_value DOCUMENT = 3"
| "application_value FORUM = 4"
| "application_value GALLERY = 5"
| "application_value CALENDAR = 6"
| "application_value PAGES = 7"
| "application_value PEOPLE = 8"
| "application_value SPACE = 9"
| "application_value MICROBLOG = 10"

datatype UpdatedDateType =
  PAST_HOUR | PAST_24_HOURS | PAST_WEEK | PAST_MONTH | PAST_YEAR | CUSTOM_RANGE

fun updated_date_type_value :: "UpdatedDateType \<Rightarrow> string" where
  "updated_date_type_value PAST_HOUR = ''pastHour''"
| "updated_date_type_value PAST_24_HOURS = ''pastTwentyFourHours''"
| "updated_date_type_value PAST_WEEK = ''pastWeek''"
| "updated_date_type_value PAST_MONTH = ''pastMonth''"
| "updated_date_type_value PAST_YEAR = ''pastYear''"
| "updated_date_type_value CUSTOM_RANGE = ''dateRange''"

record date =
  year :: nat
  month :: nat
  day :: nat

text \<open>
  \<^verbatim>\<open>d.strftime("%m-%d-%Y")\<close>: month and day on two digits, and the year as CPython on
  glibc prints it, with no padding (the year 999 gives \<^verbatim>\<open>01-02-999\<close>).
\<close>

definition zero_pad :: "nat \<Rightarrow> string \<Rightarrow> string" where
  "zero_pad w s = replicate (w - length s) CHR ''0'' @ s"

definition strftime_api :: "date \<Rightarrow> string" where
  "strftime_api d =
     zero_pad 2 (str_nat (month d)) @ ''-'' @ zero_pad 2 (str_nat (day d)) @ ''-''
       @ str_nat (year d)"

text \<open>
  The fields of \<^verbatim>\<open>IglooClient\<close> that \<^verbatim>\<open>search\<close> and \<^verbatim>\<open>fetch_page\<close> read. The credentials
  are only read by \<^verbatim>\<open>authenticate\<close>.
\<close>

record client =
  community :: string
  community_key :: string
  page_size :: int

text \<open>\<^verbatim>\<open>__init__\<close> strips the trailing slashes of the community URL.\<close>

definition init_client :: "string \<Rightarrow> string \<Rightarrow> int \<Rightarrow> client" where
  "init_client community' community_key' page_size' =
     \<lparr>community = rstrip_slash community', community_key = community_key',
      page_size = page_size'\<rparr>"

text \<open>
  \<^verbatim>\<open>_request\<close> (a name cannot start with an underscore here): the method is validated
  before the transport is called. The second component of the result is the list of
  requests handed to the transport.
\<close>

definition request' ::
  "client \<Rightarrow> 'r transport \<Rightarrow> string \<Rightarrow> string \<Rightarrow> (string \<times> string) list
     \<Rightarrow> (error + 'r response) \<times> request list" where
  "request' c tr meth endpoint ps =
     (if meth \<notin> {''GET'', ''POST'', ''PUT'', ''DELETE''}
      then (Inl (ValueError (''Invalid HTTP method: '' @ meth)), [])
      else
        let r = \<lparr>http_method = meth, url = community c @ endpoint, params = ps,
                 accept = ''application/json''\<rparr>
        in (case tr r of
              Inl e \<Rightarrow> (Inl e, [r])
            | Inr resp \<Rightarrow> (raise_for_status resp, [r])))"

text \<open>The arguments of \<^verbatim>\<open>search\<close>, with the defaults of the signature.\<close>

record search_args =
  query :: "string option"
  applications :: "ApplicationType list option"
  parent_href :: "string option"
  search_all :: bool
  include_microblog :: bool
  include_archived :: bool
  updated_date_type :: "UpdatedDateType option"
  updated_date_range_from :: "date option"
  updated_date_range_to :: "date option"
  pagination_page_size :: "int option"
  limit :: "int option"

definition default_args :: search_args where
  "default_args =
     \<lparr>query = None, applications = None, parent_href = None, search_all = True,
      include_microblog = True, include_archived = False, updated_date_type = None,
      updated_date_range_from = None, updated_date_range_to = None,
      pagination_page_size = None, limit = None\<rparr>"

text \<open>\<^verbatim>\<open>pagination_page_size or self.page_size\<close>: \<open>None\<close> and \<open>0\<close> are both falsy.\<close>

definition effective_page_size :: "client \<Rightarrow> search_args \<Rightarrow> int" where
  "effective_page_size c a =
     (case pagination_page_size a of
        None \<Rightarrow> page_size c
      | Some p \<Rightarrow> if p = 0 then page_size c else p)"

definition apostrophe :: string where
  "apostrophe = [CHR 0x27]"

definition custom_range_message :: string where
  "custom_range_message =
     apostrophe @ ''updated_date_range_from'' @ apostrophe @ '' and '' @ apostrophe
       @ ''updated_date_range_to'' @ apostrophe @ '' must be provided when '' @ apostrophe
       @ ''updated_date_type'' @ apostrophe @ '' is '' @ apostrophe @ ''CUSTOM_RANGE''
       @ apostrophe @ ''.''"

text \<open>
  Lines 166 to 194 of \<^verbatim>\<open>search\<close>: the query parameters, in insertion order, or the
  \<^verbatim>\<open>ValueError\<close> of a custom range that lacks a bound.
\<close>

definition search_params :: "client \<Rightarrow> search_args \<Rightarrow> error + (string \<times> string) list" where
  "search_params c a =
     (let ps0 = [(''limit'', str_int (effective_page_size c a))];
          ps1 = (case query a of
                   None \<Rightarrow> ps0
                 | Some q \<Rightarrow> if q = [] then ps0 else ps0 @ [(''query'', q)]);
          ps2 = (case applications a of
                   None \<Rightarrow> ps1
                 | Some apps \<Rightarrow>
                     if apps = [] then ps1
                     else ps1 @ [(''applications'',
                                  join '','' (map (\<lambda>app. str_int (application_value app)) apps))]);
          ps3 = (case parent_href a of
                   None \<Rightarrow> ps2
                 | Some h \<Rightarrow> if h = [] then ps2 else ps2 @ [(''parentHref'', rstrip_slash h)]);
          ps4 = ps3 @ [(''searchAll'', str_bool_lower (search_all a)),
                       (''includeMicroblog'', str_bool_lower (include_microblog a)),
                       (''includeArchived'', str_bool_lower (include_archived a))]
      in case updated_date_type a of
           None \<Rightarrow> Inr ps4
         | Some t \<Rightarrow>
             let ps5 = ps4 @ [(''updatedDateType'', updated_date_type_value t)]
             in if t = CUSTOM_RANGE then
                  (case (updated_date_range_from a, updated_date_range_to a) of
                     (Some f, Some u) \<Rightarrow>
                       Inr (ps5 @ [(''updatedFrom'', strftime_api f),
                                   (''updatedTo'', strftime_api u)])
                   | _ \<Rightarrow> Inl (ValueError custom_range_message))
                else Inr ps5)"

definition search_endpoint :: "client \<Rightarrow> string" where
  "search_endpoint c =
     ''/.api2/api/v1/communities/'' @ community_key c @ ''/search/contentDetailed''"

text \<open>\<^verbatim>\<open>first_response_json.get("results") or []\<close>.\<close>

definition first_results :: "'r search_json \<Rightarrow> 'r list" where
  "first_results j = (case results j of Present rs \<Rightarrow> rs | _ \<Rightarrow> [])"

text \<open>
  \<^verbatim>\<open>first_response_json.get("numFound", len(results))\<close>: the default is taken only when
  the key is absent; a \<^verbatim>\<open>null\<close> stays \<^verbatim>\<open>None\<close>.
\<close>

definition total_results_found :: "'r search_json \<Rightarrow> int option" where
  "total_results_found j =
     (case numFound j of
        Absent \<Rightarrow> Some (int (length (first_results j)))
      | Null \<Rightarrow> None
      | Present n \<Rightarrow> Some n)"

text \<open>
  The loop over the remaining responses: \<^verbatim>\<open>results.extend(response.json().get("results", []))\<close>.
  A \<^verbatim>\<open>null\<close> is not iterable.
\<close>

fun extend_results :: "'r list \<Rightarrow> 'r response list \<Rightarrow> error + 'r list" where
  "extend_results acc [] = Inr acc"
| "extend_results acc (resp # resps) =
     (case json resp of
        None \<Rightarrow> Inl JSONDecodeError
      | Some j \<Rightarrow>
          (case results j of
             Absent \<Rightarrow> extend_results acc resps
           | Null \<Rightarrow> Inl TypeError
           | Present rs \<Rightarrow> extend_results (acc @ rs) resps))"

text \<open>The final \<^verbatim>\<open>results[:limit]\<close> when a limit is given.\<close>

definition apply_limit :: "int option \<Rightarrow> 'r list \<Rightarrow> 'r list" where
  "apply_limit lmt rs = (case lmt of None \<Rightarrow> rs | Some l \<Rightarrow> py_take l rs)"

text \<open>
  \<^verbatim>\<open>search\<close>, lines 196 to 242. The result is what the call returns or raises, paired
  with the requests it handed to the transport, in the order of issue.
\<close>

definition search ::
  "client \<Rightarrow> 'r transport \<Rightarrow> search_args \<Rightarrow> (error + 'r list) \<times> request list" where
  "search c tr a =
     (case search_params c a of
        Inl e \<Rightarrow> (Inl e, [])
      | Inr ps \<Rightarrow>
          (case request' c tr ''GET'' (search_endpoint c) ps of
             (Inl e, log1) \<Rightarrow> (Inl e, log1)
           | (Inr first_response, log1) \<Rightarrow>
               (case json first_response of
                  None \<Rightarrow> (Inl JSONDecodeError, log1)
                | Some first_json \<Rightarrow>
                    let rs = first_results first_json in
                    if limit a = Some 0 then (Inr [], log1)
                    else if (case limit a of None \<Rightarrow> False | Some l \<Rightarrow> l \<le> int (length rs))
                    then (Inr (apply_limit (limit a) rs), log1)
                    else
                      (case total_results_found first_json of
                         None \<Rightarrow> (Inl TypeError, log1)
                       | Some numfound \<Rightarrow>
                           let results_to_fetch =
                                 (case limit a of None \<Rightarrow> numfound | Some l \<Rightarrow> min l numfound)
                           in (case py_range (int (length rs)) results_to_fetch
                                      (effective_page_size c a) of
                                 Inl e \<Rightarrow> (Inl e, log1)
                               | Inr offsets \<Rightarrow>
                                   (case gather
                                           (map (\<lambda>offset.
                                                   request' c tr ''GET'' (search_endpoint c)
                                                     (ps @ [(''offset'', str_int offset)]))
                                              offsets) of
                                      (Inl e, log2) \<Rightarrow> (Inl e, log1 @ log2)
                                    | (Inr remaining_responses, log2) \<Rightarrow>
                                        (case extend_results rs remaining_responses of
                                           Inl e \<Rightarrow> (Inl e, log1 @ log2)
                                         | Inr merged \<Rightarrow>
                                             (Inr (apply_limit (limit a) merged),
                                              log1 @ log2))))))))"

text \<open>\<^verbatim>\<open>_validate_community_url\<close>.\<close>

definition validate_community_url :: "client \<Rightarrow> string \<Rightarrow> error + unit" where
  "validate_community_url c u =
     (if u = community c \<or> prefix (community c @ ''/'') u \<or> prefix (community c @ ''?'') u
      then Inr ()
      else Inl (ValueError (''URL must belong to community '' @ apostrophe @ community c
                              @ apostrophe @ ''. Got: '' @ u)))"

text \<open>\<^verbatim>\<open>fetch_page\<close>: the URL is validated, then requested directly from the transport.\<close>

definition fetch_page :: "client \<Rightarrow> 'r transport \<Rightarrow> string \<Rightarrow> (error + string) \<times> request list" where
  "fetch_page c tr u =
     (case validate_community_url c u of
        Inl e \<Rightarrow> (Inl e, [])
      | Inr _ \<Rightarrow>
          let r = \<lparr>http_method = ''GET'', url = u, params = [], accept = ''text/html''\<rparr>
          in (case tr r of
                Inl e \<Rightarrow> (Inl e, [r])
              | Inr resp \<Rightarrow>
                  (case raise_for_status resp of
                     Inl e \<Rightarrow> (Inl e, [r])
                   | Inr ok \<Rightarrow> (Inr (body_text ok), [r]))))"

text \<open>\<^verbatim>\<open>fetch_pages\<close>: one task per URL, gathered with \<^verbatim>\<open>return_exceptions=True\<close>.\<close>

definition fetch_pages ::
  "client \<Rightarrow> 'r transport \<Rightarrow> string list \<Rightarrow> (error + string) list \<times> request list" where
  "fetch_pages c tr urls = gather_return_exceptions (map (fetch_page c tr) urls)"

section \<open>The formatter (formatter.py)\<close>

text \<open>
  \<^verbatim>\<open>s.rsplit(" ", 1)[0]\<close>: the string is scanned from the right for a space; what comes
  before the last space is kept, and a string with no space is kept whole.
\<close>

definition rsplit_space_head :: "string \<Rightarrow> string" where
  "rsplit_space_head s =
     (if CHR '' '' \<in> set s then rev (tl (dropWhile (\<lambda>c. c \<noteq> CHR '' '') (rev s))) else s)"

text \<open>\<^verbatim>\<open>_truncate_text\<close>.\<close>

definition truncate_text :: "string \<Rightarrow> int \<Rightarrow> string" where
  "truncate_text t max_length =
     (if int (length t) \<le> max_length then t
      else rsplit_space_head (py_take max_length t) @ ''...'')"

text \<open>
  The words of the specification for what the helper keeps, "trimmed back to the last
  whole word": the kept part \<open>r\<close> is a prefix of the text that stops where a word stops, at
  a space or at the end of the text.
\<close>

definition spec_ends_on_whole_word :: "string \<Rightarrow> string \<Rightarrow> bool" where
  "spec_ends_on_whole_word t r \<longleftrightarrow>
     prefix r t \<and> (length r = length t \<or> t ! length r = CHR '' '')"

section \<open>The truncation and continuation engine\<close>

text \<open>
  Modelled from the spec: the declaration of the metadata record that
  \<^verbatim>\<open>format_truncation_metadata\<close> reads is in \<^verbatim>\<open>igloo_mcp/converter.py\<close>, which is not
  among the sources. The fields are the six of the specification's TruncationWindow,
  under the names the formatter and its tests use.
\<close>

datatype truncation_status = COMPLETE | PARTIAL

record TruncationMetadata =
  status :: truncation_status
  chars_returned :: int
  chars_total :: int
  next_start_index :: "int option"
  current_path :: "string option"
  remaining_sections :: "string list"

text \<open>
  Modelled from the spec: a converted document (its declaration is in
  \<^verbatim>\<open>igloo_mcp/converter.py\<close> too) is its text and a table of contents, the section
  labels with their start offsets in the order of the document.
\<close>

record FetchableDocument =
  doc_text :: string
  table_of_contents :: "(string \<times> nat) list"

text \<open>
  Modelled from the spec: the truncation engine lives in \<^verbatim>\<open>igloo_mcp/converter.py\<close>, which
  is not among the sources. The window is the substring that starts at \<open>start_index\<close> and
  extends up to \<open>max_chars\<close> characters; \<open>chars_total\<close> is the length of the document;
  the status is complete iff \<open>start_index + chars_returned >= chars_total\<close>; a partial
  window carries \<open>next_start_index = start_index + chars_returned\<close>; the current section
  is the last one that starts at or before the end of the window, and the remaining
  sections are those that start after it.
\<close>

definition truncate_window ::
  "FetchableDocument \<Rightarrow> nat \<Rightarrow> nat \<Rightarrow> string \<times> TruncationMetadata" where
  "truncate_window doc start_index max_chars =
     (let window = take max_chars (drop start_index (doc_text doc));
          window_end = start_index + length window;
          complete = (length (doc_text doc) \<le> window_end);
          reached = filter (\<lambda>(label, offset). offset \<le> window_end) (table_of_contents doc);
          ahead = filter (\<lambda>(label, offset). window_end < offset) (table_of_contents doc)
      in (window,
          \<lparr>status = (if complete then COMPLETE else PARTIAL),
           chars_returned = int (length window),
           chars_total = int (length (doc_text doc)),
           next_start_index = (if complete then None else Some (int window_end)),
           current_path = (if reached = [] then None else Some (fst (last reached))),
           remaining_sections = map fst ahead\<rparr>))"

text \<open>
  Modelled from the spec: the continuation protocol of the caller, which fetches a
  window, and as long as the status is partial fetches again from \<open>next_start_index\<close>.
  The result is the list of the windows returned, up to the complete one; \<open>None\<close> is a
  protocol that never reaches a complete window.
\<close>

partial_function (option) fetch_until_complete ::
  "FetchableDocument \<Rightarrow> nat \<Rightarrow> nat \<Rightarrow> string list option" where
  "fetch_until_complete doc max_chars start_index =
     (if status (snd (truncate_window doc start_index max_chars)) = COMPLETE
      then Some [fst (truncate_window doc start_index max_chars)]
      else Option.bind (next_start_index (snd (truncate_window doc start_index max_chars)))
             (\<lambda>next. Option.bind (fetch_until_complete doc max_chars (nat next))
                (\<lambda>rest. Some (fst (truncate_window doc start_index max_chars) # rest))))"

section \<open>The percentage of the truncation notice\<close>

text \<open>
  A finite binary64 value: \<open>Float m e\<close> stands for \<open>m * 2 ^ e\<close>.
\<close>

datatype py_float = Float int int

text \<open>\<^verbatim>\<open>n.bit_length()\<close> for an integer that is not negative.\<close>

function bit_length :: "int \<Rightarrow> int" where
  "bit_length n = (if n \<le> 0 then 0 else 1 + bit_length (n div 2))"
  by pat_completeness auto
termination
  by (relation "measure nat") auto

declare bit_length.simps [simp del]

text \<open>
  For positive \<open>n\<close> and \<open>d\<close>: whether \<open>2 ^ k \<le> n / d\<close>, and the exponent \<open>e\<close> of the
  quotient, with \<open>2 ^ e \<le> n / d < 2 ^ (e + 1)\<close>, found from the bit lengths.
\<close>

definition ratio_ge_pow2 :: "int \<Rightarrow> int \<Rightarrow> int \<Rightarrow> bool" where
  "ratio_ge_pow2 n d k = (if 0 \<le> k then d * 2 ^ nat k \<le> n else d \<le> n * 2 ^ nat (- k))"

definition floor_log2_ratio :: "int \<Rightarrow> int \<Rightarrow> int" where
  "floor_log2_ratio n d =
     (let k = bit_length n - bit_length d
      in if ratio_ge_pow2 n d k then k else k - 1)"

text \<open>The integer nearest to \<open>n / d\<close>, a tie going to the even one.\<close>

definition round_half_even_div :: "int \<Rightarrow> int \<Rightarrow> int" where
  "round_half_even_div n d =
     (let q = n div d; r = n mod d
      in if 2 * r < d then q else if d < 2 * r then q + 1 else if even q then q else q + 1)"

text \<open>
  \<^verbatim>\<open>x / y\<close> for two integers. Python's true division gives a float: the binary64 value
  nearest to the exact quotient, ties to even (53 significant bits, the unit in the last
  place never below \<open>2 ^ -1074\<close>). A zero divisor raises \<^verbatim>\<open>ZeroDivisionError\<close>, and a
  quotient that rounds to \<open>2 ^ 1024\<close> or more raises \<^verbatim>\<open>OverflowError\<close>.
\<close>

definition py_truediv :: "int \<Rightarrow> int \<Rightarrow> error + py_float" where
  "py_truediv x y =
     (if y = 0 then Inl ZeroDivisionError
      else if x = 0 then Inr (Float 0 0)
      else
        let n = \<bar>x\<bar>; d = \<bar>y\<bar>;
            e = floor_log2_ratio n d;
            ulp = max e (- 1022) - 52;
            m = (if 0 \<le> ulp then round_half_even_div n (d * 2 ^ nat ulp)
                 else round_half_even_div (n * 2 ^ nat (- ulp)) d)
        in if 1024 \<le> e \<or> (e = 1023 \<and> m = 2 ^ 53) then Inl OverflowError
           else Inr (Float (sgn x * sgn y * m) ulp))"

text \<open>\<^verbatim>\<open>int(f)\<close> for a float: truncation towards zero.\<close>

definition py_int :: "py_float \<Rightarrow> int" where
  "py_int f = (case f of Float m e \<Rightarrow>
      if 0 \<le> e then m * 2 ^ nat e else sgn m * (\<bar>m\<bar> div 2 ^ nat (- e)))"

text \<open>
  Line 244 of \<^verbatim>\<open>format_truncation_metadata\<close>, the percentage that the function displays:
  \<^verbatim>\<open>int(100 * metadata.chars_returned / metadata.chars_total) if metadata.chars_total > 0 else 0\<close>.
  The other lines of the function lay the text out.
\<close>

definition pct :: "TruncationMetadata \<Rightarrow> error + int" where
  "pct metadata =
     (if 0 < chars_total metadata
      then (case py_truediv (100 * chars_returned metadata) (chars_total metadata) of
              Inl e \<Rightarrow> Inl e
            | Inr f \<Rightarrow> Inr (py_int f))
      else Inr 0)"

section \<open>Requests and responses named for the statements\<close>

text \<open>The request that \<^verbatim>\<open>search\<close> builds for the first page, from the query parameters.\<close>

definition first_request :: "client \<Rightarrow> (string \<times> string) list \<Rightarrow> request" where
  "first_request c ps =
     \<lparr>http_method = ''GET'', url = community c @ search_endpoint c, params = ps,
      accept = ''application/json''\<rparr>"

text \<open>The request of the fan-out for one offset: \<^verbatim>\<open>page_params["offset"] = str(offset)\<close>.\<close>

definition page_request :: "client \<Rightarrow> (string \<times> string) list \<Rightarrow> int \<Rightarrow> request" where
  "page_request c ps offset = first_request c (ps @ [(''offset'', str_int offset)])"

text \<open>
  What a request gives once the transport has answered and \<^verbatim>\<open>raise_for_status\<close> has
  run: an error for a transport failure or a status outside 2xx.
\<close>

definition delivered :: "'r transport \<Rightarrow> request \<Rightarrow> error + 'r response" where
  "delivered tr r = (case tr r of Inl e \<Rightarrow> Inl e | Inr resp \<Rightarrow> raise_for_status resp)"

text \<open>A 200 response carrying a JSON object.\<close>

definition ok_response :: "'r search_json \<Rightarrow> 'r response" where
  "ok_response j = \<lparr>status_code = 200, json = Some j, body_text = []\<rparr>"

section \<open>The server that the pagination property assumes\<close>

text \<open>
  The pagination property is stated for a server on which "every page request returns
  the records at its offset": it holds the matching records \<open>db\<close> in its order, reads the
  page size from the \<open>limit\<close> parameter and the offset from the \<open>offset\<close> parameter (0 when
  there is none, as in the first request), and answers with that window of \<open>db\<close> and
  with \<open>numFound = len(db)\<close>. The parameters are decimal strings, as \<^verbatim>\<open>str\<close> wrote them.
\<close>

definition digit_value :: "char \<Rightarrow> nat" where
  "digit_value ch = of_char ch - 48"

definition parse_nat :: "string \<Rightarrow> nat" where
  "parse_nat s = foldl (\<lambda>n ch. 10 * n + digit_value ch) 0 s"

definition paged_server :: "'r list \<Rightarrow> 'r transport" where
  "paged_server db r =
     (let page = (case map_of (params r) ''limit'' of None \<Rightarrow> 0 | Some s \<Rightarrow> parse_nat s);
          offset = (case map_of (params r) ''offset'' of None \<Rightarrow> 0 | Some s \<Rightarrow> parse_nat s)
      in Inr (ok_response \<lparr>results = Present (take page (drop offset db)),
                           numFound = Present (int (length db))\<rparr>))"

text \<open>
  The number of records the call is after, \<^verbatim>\<open>results_to_fetch\<close> for this server:
  \<open>min(L, T)\<close> under a limit \<open>L\<close>, and \<open>T\<close> with no limit.
\<close>

definition results_wanted :: "search_args \<Rightarrow> 'r list \<Rightarrow> int" where
  "results_wanted a db =
     (case limit a of None \<Rightarrow> int (length db) | Some l \<Rightarrow> min l (int (length db)))"

text \<open>The body of the answer for one window.\<close>

definition page_json :: "'r list \<Rightarrow> nat \<Rightarrow> nat \<Rightarrow> 'r search_json" where
  "page_json db page offset =
     \<lparr>results = Present (take page (drop offset db)), numFound = Present (int (length db))\<rparr>"

section \<open>Responses that lack a field\<close>





section \<open>Pagination: the shape of a run\<close>

lemma request'_GET:
  "request' c tr ''GET'' (search_endpoint c) ps
     = (delivered tr (first_request c ps), [first_request c ps])"
  by (simp add: request'_def Let_def first_request_def delivered_def split: sum.splits)

lemma snd_gather: "snd (gather ts) = concat (map snd ts)"
  by (induction ts rule: gather.induct) (auto split: prod.splits sum.splits)

lemma gather_fails: "(r, l) \<in> set ts \<Longrightarrow> isl r \<Longrightarrow> isl (fst (gather ts))"
  by (induction ts rule: gather.induct) (auto split: prod.splits sum.splits)

lemma gather_all_ok:
  "gather (map (\<lambda>x. (Inr (h x), l x)) xs) = (Inr (map h xs), concat (map l xs))"
  by (induction xs) auto

lemma gather_pages:
  "gather (map (\<lambda>offset. request' c tr ''GET'' (search_endpoint c)
                           (ps @ [(''offset'', str_int offset)])) offsets)
   = (fst (gather (map (\<lambda>offset. (delivered tr (page_request c ps offset),
                                   [page_request c ps offset])) offsets)),
      map (page_request c ps) offsets)"
proof -
  have "snd (gather (map (\<lambda>offset. (delivered tr (page_request c ps offset),
                                     [page_request c ps offset])) offsets))
        = map (page_request c ps) offsets"
    by (simp add: snd_gather comp_def)
  then show ?thesis
    by (simp add: request'_GET page_request_def prod_eq_iff)
qed

text \<open>
  Once the parameters are valid, a run of \<^verbatim>\<open>search\<close> is the first request followed,
  when the first page does not satisfy the call, by one request per remaining offset.
\<close>

lemma search_unfold:
  assumes "search_params c a = Inr ps"
  shows "search c tr a =
     (case delivered tr (first_request c ps) of
        Inl e \<Rightarrow> (Inl e, [first_request c ps])
      | Inr first_response \<Rightarrow>
          (case json first_response of
             None \<Rightarrow> (Inl JSONDecodeError, [first_request c ps])
           | Some first_json \<Rightarrow>
               let rs = first_results first_json in
               if limit a = Some 0 then (Inr [], [first_request c ps])
               else if (case limit a of None \<Rightarrow> False | Some l \<Rightarrow> l \<le> int (length rs))
               then (Inr (apply_limit (limit a) rs), [first_request c ps])
               else
                 (case total_results_found first_json of
                    None \<Rightarrow> (Inl TypeError, [first_request c ps])
                  | Some numfound \<Rightarrow>
                      (case py_range (int (length rs))
                              (case limit a of None \<Rightarrow> numfound | Some l \<Rightarrow> min l numfound)
                              (effective_page_size c a) of
                         Inl e \<Rightarrow> (Inl e, [first_request c ps])
                       | Inr offsets \<Rightarrow>
                           (case fst (gather (map (\<lambda>offset.
                                        (delivered tr (page_request c ps offset),
                                         [page_request c ps offset])) offsets)) of
                              Inl e \<Rightarrow>
                                (Inl e, first_request c ps # map (page_request c ps) offsets)
                            | Inr remaining_responses \<Rightarrow>
                                (case extend_results rs remaining_responses of
                                   Inl e \<Rightarrow>
                                     (Inl e,
                                      first_request c ps # map (page_request c ps) offsets)
                                 | Inr merged \<Rightarrow>
                                     (Inr (apply_limit (limit a) merged),
                                      first_request c ps
                                        # map (page_request c ps) offsets)))))))"
  apply (simp only: search_def assms sum.case gather_pages)
  apply (simp only: request'_GET prod.case)
  apply (simp add: Let_def split: sum.splits option.splits prod.splits)
  done

section \<open>Limit zero\<close>

text \<open>
  C1, as the code has it: with \<open>limit = 0\<close> and valid parameters, \<^verbatim>\<open>search\<close> issues
  exactly one request, the first page, and no fan-out request. The check of the limit
  comes after that request: the call returns the empty list when the request succeeds
  with a JSON body, and raises the error of the request otherwise.
\<close>

theorem search_limit_zero_one_request:
  assumes "limit a = Some 0" and "search_params c a = Inr ps"
  shows "snd (search c tr a) = [first_request c ps]
         \<and> (case delivered tr (first_request c ps) of
               Inl e \<Rightarrow> fst (search c tr a) = Inl e
             | Inr resp \<Rightarrow>
                 (case json resp of
                    None \<Rightarrow> fst (search c tr a) = Inl JSONDecodeError
                  | Some j \<Rightarrow> fst (search c tr a) = Inr []))"
  using assms by (simp add: search_unfold split: sum.splits option.splits)

theorem search_limit_zero_one_request_witness:
  "limit (default_args\<lparr>limit := Some 0\<rparr>) = Some 0
   \<and> search_params (init_client ''https://igloo.example.com'' ''10'' 50)
         (default_args\<lparr>limit := Some 0\<rparr>)
       = Inr [(''limit'', ''50''), (''searchAll'', ''true''), (''includeMicroblog'', ''true''),
              (''includeArchived'', ''false'')]
   \<and> search (init_client ''https://igloo.example.com'' ''10'' 50)
         (\<lambda>r. Inr (ok_response \<lparr>results = Present [1::nat, 2], numFound = Present 2\<rparr>))
         (default_args\<lparr>limit := Some 0\<rparr>)
       = (Inr [],
          [\<lparr>http_method = ''GET'',
            url = ''https://igloo.example.com/.api2/api/v1/communities/10/search/contentDetailed'',
            params = [(''limit'', ''50''), (''searchAll'', ''true''),
                      (''includeMicroblog'', ''true''), (''includeArchived'', ''false'')],
            accept = ''application/json''\<rparr>])"
proof -
  let ?c = "init_client ''https://igloo.example.com'' ''10'' 50"
  let ?a = "default_args\<lparr>limit := Some 0\<rparr>"
  let ?ps = "[(''limit'', ''50''), (''searchAll'', ''true''), (''includeMicroblog'', ''true''),
              (''includeArchived'', ''false'')]"
  let ?tr = "\<lambda>r::request.
               Inr (ok_response \<lparr>results = Present [1::nat, 2], numFound = Present 2\<rparr>)
                 :: error + nat response"
  have l: "limit ?a = Some 0" by (simp add: default_args_def)
  have p: "search_params ?c ?a = Inr ?ps"
    by (simp add: search_params_def default_args_def init_client_def effective_page_size_def
          str_int_def str_nat.simps digit_char_def str_bool_lower_def)
  from search_limit_zero_one_request [OF l p, of ?tr] l p show ?thesis
    by (simp add: first_request_def delivered_def ok_response_def raise_for_status_def
          search_endpoint_def init_client_def rstrip_slash_def prod_eq_iff)
qed

text \<open>
  The claim as the specification words it asks for zero requests. With \<open>limit = 0\<close> and
  a transport that answers, the first page is requested all the same.
\<close>

theorem search_limit_zero_counterexample:
  "limit (default_args\<lparr>limit := Some 0\<rparr>) = Some 0
   \<and> length (snd (search (init_client ''https://igloo.example.com'' ''10'' 50)
                    (\<lambda>r. Inr (ok_response
                                \<lparr>results = Present [1::nat, 2], numFound = Present 2\<rparr>))
                    (default_args\<lparr>limit := Some 0\<rparr>))) = 1"
  by (simp add: search_def search_params_def default_args_def request'_def init_client_def
       ok_response_def raise_for_status_def Let_def)

section \<open>Validation comes before the network\<close>

text \<open>
  C7: a custom date range that lacks a bound makes \<^verbatim>\<open>search\<close> raise \<^verbatim>\<open>ValueError\<close> with no
  request issued, and a method outside GET, POST, PUT and DELETE makes \<^verbatim>\<open>_request\<close> raise
  \<^verbatim>\<open>ValueError\<close> with no request issued, whatever the transport would answer.
\<close>

theorem validation_before_network:
  "(updated_date_type a = Some CUSTOM_RANGE \<and>
      (updated_date_range_from a = None \<or> updated_date_range_to a = None)
      \<longrightarrow> search c tr a = (Inl (ValueError custom_range_message), []))
   \<and> (meth \<notin> {''GET'', ''POST'', ''PUT'', ''DELETE''}
      \<longrightarrow> request' c tr meth endpoint ps
            = (Inl (ValueError (''Invalid HTTP method: '' @ meth)), []))"
  by (auto simp: search_def search_params_def request'_def Let_def split: option.splits)

theorem validation_before_network_witness:
  "(updated_date_type (default_args\<lparr>updated_date_type := Some CUSTOM_RANGE\<rparr>)
      = Some CUSTOM_RANGE \<and>
      (updated_date_range_from (default_args\<lparr>updated_date_type := Some CUSTOM_RANGE\<rparr>) = None \<or>
       updated_date_range_to (default_args\<lparr>updated_date_type := Some CUSTOM_RANGE\<rparr>) = None))
   \<and> search (init_client ''https://igloo.example.com/'' ''10'' 50)
        (\<lambda>r. Inr (ok_response \<lparr>results = Present [1::nat], numFound = Present 1\<rparr>))
        (default_args\<lparr>updated_date_type := Some CUSTOM_RANGE\<rparr>)
      = (Inl (ValueError custom_range_message), [])
   \<and> ''PATCH'' \<notin> {''GET'', ''POST'', ''PUT'', ''DELETE''}
   \<and> request' (init_client ''https://igloo.example.com/'' ''10'' 50)
        (\<lambda>r. Inr (ok_response \<lparr>results = Present [1::nat], numFound = Present 1\<rparr>))
        ''PATCH'' ''/x'' [] = (Inl (ValueError ''Invalid HTTP method: PATCH''), [])"
  using validation_before_network
    [of "default_args\<lparr>updated_date_type := Some CUSTOM_RANGE\<rparr>"
        "init_client ''https://igloo.example.com/'' ''10'' 50"
        "\<lambda>r. Inr (ok_response \<lparr>results = Present [1::nat], numFound = Present 1\<rparr>)"
        "''PATCH''" "''/x''" "[]"]
  by (simp add: default_args_def)

section \<open>The fan-out is all or nothing\<close>

lemma search_log_shape:
  assumes "search_params c a = Inr ps"
  shows "snd (search c tr a) = [first_request c ps]
         \<or> (\<exists>offsets. snd (search c tr a) = first_request c ps # map (page_request c ps) offsets
               \<and> (isl (fst (gather (map (\<lambda>offset. (delivered tr (page_request c ps offset),
                                        [page_request c ps offset])) offsets)))
                    \<longrightarrow> isl (fst (search c tr a))))"
proof (cases "delivered tr (first_request c ps)")
  case (Inl e)
  then show ?thesis by (simp add: search_unfold [OF assms])
next
  case (Inr resp)
  show ?thesis
  proof (cases "json resp")
    case None
    with Inr show ?thesis by (simp add: search_unfold [OF assms])
  next
    case (Some j)
    show ?thesis
    proof (cases "limit a = Some 0
                  \<or> (case limit a of None \<Rightarrow> False
                      | Some l \<Rightarrow> l \<le> int (length (first_results j)))")
      case True
      with Inr Some show ?thesis by (auto simp add: search_unfold [OF assms] Let_def)
    next
      case False
      show ?thesis
      proof (cases "total_results_found j")
        case None
        with Inr Some False show ?thesis by (simp add: search_unfold [OF assms] Let_def)
      next
        case numfound: (Some n)
        show ?thesis
        proof (cases "py_range (int (length (first_results j)))
                        (case limit a of None \<Rightarrow> n | Some l \<Rightarrow> min l n)
                        (effective_page_size c a)")
          case (Inl e)
          with Inr Some False numfound show ?thesis
            by (simp add: search_unfold [OF assms] Let_def)
        next
          case offs: (Inr offsets)
          have "snd (search c tr a) = first_request c ps # map (page_request c ps) offsets
               \<and> (isl (fst (gather (map (\<lambda>offset. (delivered tr (page_request c ps offset),
                                        [page_request c ps offset])) offsets)))
                    \<longrightarrow> isl (fst (search c tr a)))"
            using Inr Some False numfound offs
            by (simp add: search_unfold [OF assms] Let_def split: sum.splits)
          then show ?thesis by blast
        qed
      qed
    qed
  qed
qed

text \<open>
  C4: every request after the first one in the log of a \<^verbatim>\<open>search\<close> call is a fan-out
  request. When one of them fails (the transport fails, or the status is outside 2xx),
  the call raises: its outcome is an error, never a list, whatever the other pages
  returned.
\<close>

theorem search_fanout_failure_is_fatal:
  assumes "snd (search c tr a) = first # rest"
      and "r \<in> set rest"
      and "isl (delivered tr r)"
  shows "isl (fst (search c tr a))"
proof (cases "search_params c a")
  case (Inl e)
  then show ?thesis using assms by (simp add: search_def)
next
  case (Inr ps)
  from search_log_shape [OF Inr, of tr] assms(1,2)
  obtain offsets where rest: "rest = map (page_request c ps) offsets"
    and fatal: "isl (fst (gather (map (\<lambda>offset. (delivered tr (page_request c ps offset),
                                        [page_request c ps offset])) offsets)))
                    \<longrightarrow> isl (fst (search c tr a))"
    by auto
  from rest assms(2) obtain offset where "offset \<in> set offsets" "r = page_request c ps offset"
    by auto
  then have "(delivered tr r, [r])
               \<in> set (map (\<lambda>offset. (delivered tr (page_request c ps offset),
                                      [page_request c ps offset])) offsets)"
    by auto
  then have "isl (fst (gather (map (\<lambda>offset. (delivered tr (page_request c ps offset),
                                        [page_request c ps offset])) offsets)))"
    using assms(3) by (rule gather_fails)
  with fatal show ?thesis by simp
qed

theorem search_fanout_failure_is_fatal_witness:
  "snd (search (init_client ''https://igloo.example.com/'' ''10'' 2)
          (\<lambda>r. if map_of (params r) ''offset'' = Some ''4'' then Inl TimeoutException
               else Inr (ok_response \<lparr>results = Present [1::nat, 2], numFound = Present 6\<rparr>))
          default_args)
     = first_request (init_client ''https://igloo.example.com/'' ''10'' 2)
         [(''limit'', ''2''), (''searchAll'', ''true''), (''includeMicroblog'', ''true''),
          (''includeArchived'', ''false'')]
       # [page_request (init_client ''https://igloo.example.com/'' ''10'' 2)
            [(''limit'', ''2''), (''searchAll'', ''true''), (''includeMicroblog'', ''true''),
             (''includeArchived'', ''false'')] 2,
          page_request (init_client ''https://igloo.example.com/'' ''10'' 2)
            [(''limit'', ''2''), (''searchAll'', ''true''), (''includeMicroblog'', ''true''),
             (''includeArchived'', ''false'')] 4]
   \<and> isl (delivered
          (\<lambda>r. if map_of (params r) ''offset'' = Some ''4'' then Inl TimeoutException
               else Inr (ok_response \<lparr>results = Present [1::nat, 2], numFound = Present 6\<rparr>))
          (page_request (init_client ''https://igloo.example.com/'' ''10'' 2)
            [(''limit'', ''2''), (''searchAll'', ''true''), (''includeMicroblog'', ''true''),
             (''includeArchived'', ''false'')] 4))
   \<and> isl (fst (search (init_client ''https://igloo.example.com/'' ''10'' 2)
          (\<lambda>r. if map_of (params r) ''offset'' = Some ''4'' then Inl TimeoutException
               else Inr (ok_response \<lparr>results = Present [1::nat, 2], numFound = Present 6\<rparr>))
          default_args))"
proof -
  let ?c = "init_client ''https://igloo.example.com/'' ''10'' 2"
  let ?tr = "\<lambda>r::request. if map_of (params r) ''offset'' = Some ''4'' then Inl TimeoutException
               else Inr (ok_response \<lparr>results = Present [1::nat, 2], numFound = Present 6\<rparr>)"
  let ?ps = "[(''limit'', ''2''), (''searchAll'', ''true''), (''includeMicroblog'', ''true''),
              (''includeArchived'', ''false'')]"
  have log: "snd (search ?c ?tr default_args)
               = first_request ?c ?ps # [page_request ?c ?ps 2, page_request ?c ?ps 4]"
    by code_simp
  have mem: "page_request ?c ?ps 4 \<in> set [page_request ?c ?ps 2, page_request ?c ?ps 4]"
    by simp
  have fails: "isl (delivered ?tr (page_request ?c ?ps 4))"
    by code_simp
  from search_fanout_failure_is_fatal [OF log mem fails] log fails show ?thesis by simp
qed

section \<open>Absent fields of a response\<close>














section \<open>Fetching pages\<close>

lemma fst_gather_return_exceptions: "fst (gather_return_exceptions ts) = map fst ts"
  by (induction ts rule: gather_return_exceptions.induct) (auto split: prod.splits)

lemma snd_gather_return_exceptions: "snd (gather_return_exceptions ts) = concat (map snd ts)"
  by (induction ts rule: gather_return_exceptions.induct) (auto split: prod.splits)

lemma list_of_three: "length xs = 3 \<Longrightarrow> xs = [xs ! 0, xs ! 1, xs ! 2]"
  by (auto simp add: list_eq_iff_nth_eq less_Suc_eq numeral_3_eq_3 numeral_2_eq_2)

text \<open>
  C5: \<^verbatim>\<open>fetch_pages\<close> returns one slot per URL, in the order of the URLs, and the slot of
  a URL is what \<^verbatim>\<open>fetch_page\<close> gives for that URL alone, its content or its error: no
  slot depends on the other URLs of the batch. The requests issued are those of the
  single fetches.
\<close>

theorem fetch_pages_positional:
  "length (fst (fetch_pages c tr urls)) = length urls
   \<and> (\<forall>i < length urls. fst (fetch_pages c tr urls) ! i = fst (fetch_page c tr (urls ! i)))
   \<and> snd (fetch_pages c tr urls) = concat (map (\<lambda>u. snd (fetch_page c tr u)) urls)"
  by (simp add: fetch_pages_def fst_gather_return_exceptions snd_gather_return_exceptions
        comp_def)

theorem fetch_pages_positional_witness:
  "fst (fetch_pages (init_client ''https://igloo.example.com'' ''10'' 50)
          (\<lambda>r. if url r = ''https://igloo.example.com/b''
               then Inr \<lparr>status_code = 404, json = None :: nat search_json option, body_text = []\<rparr>
               else Inr \<lparr>status_code = 200, json = None, body_text = ''<p>ok</p>''\<rparr>)
          [''https://igloo.example.com/a'', ''https://igloo.example.com/b'',
           ''https://igloo.example.com/c''])
     = [Inr ''<p>ok</p>'', Inl (HTTPStatusError 404), Inr ''<p>ok</p>'']"
proof -
  let ?c = "init_client ''https://igloo.example.com'' ''10'' 50"
  let ?tr = "\<lambda>r::request. if url r = ''https://igloo.example.com/b''
               then Inr \<lparr>status_code = 404, json = None :: nat search_json option, body_text = []\<rparr>
               else Inr \<lparr>status_code = 200, json = None, body_text = ''<p>ok</p>''\<rparr>"
  let ?urls = "[''https://igloo.example.com/a'', ''https://igloo.example.com/b'',
                ''https://igloo.example.com/c'']"
  have a: "fst (fetch_page ?c ?tr ''https://igloo.example.com/a'') = Inr ''<p>ok</p>''"
    by code_simp
  have b: "fst (fetch_page ?c ?tr ''https://igloo.example.com/b'') = Inl (HTTPStatusError 404)"
    by code_simp
  have c: "fst (fetch_page ?c ?tr ''https://igloo.example.com/c'') = Inr ''<p>ok</p>''"
    by code_simp
  from fetch_pages_positional [of ?c ?tr ?urls]
  have len: "length (fst (fetch_pages ?c ?tr ?urls)) = 3"
    and slots: "\<forall>i<3. fst (fetch_pages ?c ?tr ?urls) ! i = fst (fetch_page ?c ?tr (?urls ! i))"
    by simp_all
  from slots have "fst (fetch_pages ?c ?tr ?urls) ! 0 = Inr ''<p>ok</p>''"
    and "fst (fetch_pages ?c ?tr ?urls) ! 1 = Inl (HTTPStatusError 404)"
    and "fst (fetch_pages ?c ?tr ?urls) ! 2 = Inr ''<p>ok</p>''"
    using a b c by simp_all
  with list_of_three [OF len] show ?thesis by (simp only:)
qed

text \<open>
  C10: a URL that is not the community URL and does not start with the community URL
  followed by a slash or a question mark makes \<^verbatim>\<open>fetch_page\<close> raise \<^verbatim>\<open>ValueError\<close> with no
  request issued. Anywhere in a batch of \<^verbatim>\<open>fetch_pages\<close>, its slot holds that error, it
  adds no request, and the slots and requests of the URLs before and after it are those
  of the batches without it.
\<close>

theorem fetch_rejects_foreign_url:
  assumes "u \<noteq> community c"
      and "\<not> prefix (community c @ ''/'') u"
      and "\<not> prefix (community c @ ''?'') u"
  shows "fetch_page c tr u
           = (Inl (ValueError (''URL must belong to community '' @ apostrophe @ community c
                                 @ apostrophe @ ''. Got: '' @ u)), [])
         \<and> fetch_pages c tr (before @ u # after)
             = (fst (fetch_pages c tr before)
                  @ Inl (ValueError (''URL must belong to community '' @ apostrophe
                                       @ community c @ apostrophe @ ''. Got: '' @ u))
                  # fst (fetch_pages c tr after),
                snd (fetch_pages c tr before) @ snd (fetch_pages c tr after))"
proof -
  have one: "fetch_page c tr u
               = (Inl (ValueError (''URL must belong to community '' @ apostrophe @ community c
                                     @ apostrophe @ ''. Got: '' @ u)), [])"
    using assms by (simp add: fetch_page_def validate_community_url_def)
  show ?thesis
    by (simp add: one fetch_pages_def prod_eq_iff fst_gather_return_exceptions
          snd_gather_return_exceptions)
qed

theorem fetch_rejects_foreign_url_witness:
  "''https://evil.example.org/a'' \<noteq> community (init_client ''https://igloo.example.com/'' ''10'' 50)
   \<and> \<not> prefix (community (init_client ''https://igloo.example.com/'' ''10'' 50) @ ''/'')
          ''https://evil.example.org/a''
   \<and> \<not> prefix (community (init_client ''https://igloo.example.com/'' ''10'' 50) @ ''?'')
          ''https://evil.example.org/a''
   \<and> snd (fetch_page (init_client ''https://igloo.example.com/'' ''10'' 50)
             (\<lambda>r. Inr \<lparr>status_code = 200, json = None :: nat search_json option,
                        body_text = ''<p>ok</p>''\<rparr>)
             ''https://evil.example.org/a'') = []
   \<and> isl (fst (fetch_page (init_client ''https://igloo.example.com/'' ''10'' 50)
             (\<lambda>r. Inr \<lparr>status_code = 200, json = None :: nat search_json option,
                        body_text = ''<p>ok</p>''\<rparr>)
             ''https://evil.example.org/a''))
   \<and> map isl (fst (fetch_pages (init_client ''https://igloo.example.com/'' ''10'' 50)
             (\<lambda>r. Inr \<lparr>status_code = 200, json = None :: nat search_json option,
                        body_text = ''<p>ok</p>''\<rparr>)
             ([''https://igloo.example.com/a''] @ ''https://evil.example.org/a''
                # [''https://igloo.example.com?p=1'']))) = [False, True, False]"
proof -
  let ?c = "init_client ''https://igloo.example.com/'' ''10'' 50"
  let ?tr = "\<lambda>r::request. Inr \<lparr>status_code = 200, json = None :: nat search_json option,
                                 body_text = ''<p>ok</p>''\<rparr> :: error + nat response"
  let ?u = "''https://evil.example.org/a''"
  have h1: "?u \<noteq> community ?c" by code_simp
  have h2: "\<not> prefix (community ?c @ ''/'') ?u" by code_simp
  have h3: "\<not> prefix (community ?c @ ''?'') ?u" by code_simp
  have b: "map isl (fst (fetch_pages ?c ?tr [''https://igloo.example.com/a''])) = [False]"
    by code_simp
  have a: "map isl (fst (fetch_pages ?c ?tr [''https://igloo.example.com?p=1''])) = [False]"
    by code_simp
  from fetch_rejects_foreign_url [OF h1 h2 h3, of ?tr "[''https://igloo.example.com/a'']"
         "[''https://igloo.example.com?p=1'']"] h1 h2 h3 a b
  show ?thesis by simp
qed

section \<open>Short-text truncation\<close>

lemma rsplit_space_head_split:
  assumes "CHR '' '' \<in> set s"
  shows "\<exists>w. s = rsplit_space_head s @ '' '' @ w \<and> CHR '' '' \<notin> set w"
proof -
  let ?P = "\<lambda>c. c \<noteq> CHR '' ''"
  let ?d = "dropWhile ?P (rev s)"
  let ?w = "rev (takeWhile ?P (rev s))"
  from assms have ne: "?d \<noteq> []" by (simp add: dropWhile_eq_Nil_conv)
  then have "\<not> ?P (hd ?d)" by (rule hd_dropWhile)
  with ne have d: "?d = CHR '' '' # tl ?d" by (cases ?d) auto
  have "rev s = takeWhile ?P (rev s) @ ?d" by simp
  then have "s = rev ?d @ ?w" by (metis rev_append rev_rev_ident)
  also have "rev ?d = rev (tl ?d) @ '' ''" by (subst d) simp
  finally have "s = rsplit_space_head s @ '' '' @ ?w"
    using assms by (simp add: rsplit_space_head_def)
  moreover have "CHR '' '' \<notin> set ?w" by (auto dest: set_takeWhileD)
  ultimately show ?thesis by blast
qed

lemma py_take_is_take: "\<exists>k. py_take n xs = take k xs"
  by (auto simp add: py_take_def)


text \<open>
  C9, as the code has it: a text of at most \<open>max_length\<close> characters is returned
  unchanged. A longer text is cut to \<^verbatim>\<open>text[:max_length]\<close>, its first \<open>max_length\<close>
  characters; when these contain a space, they are cut again before their last space,
  which is where a word of the text stops, and when they contain no space they are all
  kept, so that a word longer than \<open>max_length\<close> is cut inside. The ellipsis is appended
  in both cases.
\<close>

theorem truncate_text_cuts_at_last_space:
  "(int (length t) \<le> max_length \<longrightarrow> truncate_text t max_length = t)
   \<and> (max_length < int (length t) \<longrightarrow>
        (CHR '' '' \<in> set (py_take max_length t) \<longrightarrow>
           (\<exists>r w. py_take max_length t = r @ '' '' @ w \<and> CHR '' '' \<notin> set w
                  \<and> truncate_text t max_length = r @ ''...''
                  \<and> spec_ends_on_whole_word t r))
      \<and> (CHR '' '' \<notin> set (py_take max_length t) \<longrightarrow>
           truncate_text t max_length = py_take max_length t @ ''...''))"
proof (intro conjI impI)
  assume "int (length t) \<le> max_length"
  then show "truncate_text t max_length = t" by (simp add: truncate_text_def)
next
  assume long: "max_length < int (length t)"
    and sp: "CHR '' '' \<in> set (py_take max_length t)"
  let ?p = "py_take max_length t"
  from py_take_is_take obtain k where k: "?p = take k t" by blast
  from rsplit_space_head_split [OF sp] obtain w
    where w: "?p = rsplit_space_head ?p @ '' '' @ w" "CHR '' '' \<notin> set w" by blast
  let ?r = "rsplit_space_head ?p"
  have tr: "truncate_text t max_length = ?r @ ''...''"
    using long by (simp add: truncate_text_def)
  have "t = ?p @ drop k t" by (simp add: k)
  then have t: "t = ?r @ CHR '' '' # (w @ drop k t)"
    using w(1) by (metis append_Cons append_Nil append_assoc)
  have "prefix ?r t" by (subst t) simp
  moreover have "t ! length ?r = CHR '' ''" by (subst t) simp
  ultimately have "spec_ends_on_whole_word t ?r" by (simp add: spec_ends_on_whole_word_def)
  with w tr show "\<exists>r w. ?p = r @ '' '' @ w \<and> CHR '' '' \<notin> set w
                      \<and> truncate_text t max_length = r @ ''...''
                      \<and> spec_ends_on_whole_word t r" by blast
next
  assume "max_length < int (length t)" and "CHR '' '' \<notin> set (py_take max_length t)"
  then show "truncate_text t max_length = py_take max_length t @ ''...''"
    by (simp add: truncate_text_def rsplit_space_head_def)
qed

theorem truncate_text_cuts_at_last_space_witness:
  "13 < int (length ''This is a long text'')
   \<and> CHR '' '' \<in> set (py_take 13 ''This is a long text'')
   \<and> truncate_text ''This is a long text'' 13 = ''This is a...''
   \<and> 3 < int (length ''abcdef'') \<and> CHR '' '' \<notin> set (py_take 3 ''abcdef'')
   \<and> truncate_text ''abcdef'' 3 = ''abc...''
   \<and> int (length ''short'') \<le> 200 \<and> truncate_text ''short'' 200 = ''short''"
  using truncate_text_cuts_at_last_space [of "''This is a long text''" 13]
        truncate_text_cuts_at_last_space [of "''abcdef''" 3]
        truncate_text_cuts_at_last_space [of "''short''" 200]
  by (simp add: truncate_text_def py_take_def rsplit_space_head_def)

text \<open>
  The claim as the specification words it has every truncated text stop on a whole
  word. A text of one long word is cut inside the word.
\<close>

theorem truncate_text_counterexample:
  "\<not> int (length ''abcdef'') \<le> 3
   \<and> truncate_text ''abcdef'' 3 = ''abc'' @ ''...''
   \<and> \<not> spec_ends_on_whole_word ''abcdef'' ''abc''"
  by (simp add: truncate_text_def py_take_def rsplit_space_head_def spec_ends_on_whole_word_def)

section \<open>Pagination completeness\<close>

lemma digit_value_digit_char: "d < 10 \<Longrightarrow> digit_value (digit_char d) = d"
proof -
  assume "d < 10"
  then have "d \<in> {0, 1, 2, 3, 4, 5, 6, 7, 8, 9}" by auto
  then show ?thesis by (auto simp: digit_value_def digit_char_def)
qed

lemma parse_nat_snoc: "parse_nat (s @ [ch]) = 10 * parse_nat s + digit_value ch"
  by (simp add: parse_nat_def)

lemma parse_nat_str_nat: "parse_nat (str_nat n) = n"
proof (induction n rule: str_nat.induct)
  case (1 n)
  show ?case
  proof (cases "n < 10")
    case True
    then show ?thesis
      by (subst str_nat.simps) (simp add: parse_nat_def digit_value_digit_char)
  next
    case False
    with 1 have "parse_nat (str_nat (n div 10)) = n div 10" by simp
    with False show ?thesis
      by (subst str_nat.simps) (simp add: parse_nat_snoc digit_value_digit_char)
  qed
qed

lemma parse_nat_str_int: "0 \<le> i \<Longrightarrow> parse_nat (str_int i) = nat i"
  by (simp add: str_int_def parse_nat_str_nat)

lemma search_params_keys:
  assumes "search_params c a = Inr ps"
  shows "map_of ps ''limit'' = Some (str_int (effective_page_size c a))"
    and "map_of ps ''offset'' = None"
  using assms
  by (auto simp: search_params_def Let_def split: option.splits if_splits)

lemma paged_first:
  assumes "search_params c a = Inr ps" and "0 < effective_page_size c a"
  shows "delivered (paged_server db) (first_request c ps)
           = Inr (ok_response (page_json db (nat (effective_page_size c a)) 0))"
  using assms search_params_keys [OF assms(1)]
  by (simp add: delivered_def paged_server_def first_request_def ok_response_def
        raise_for_status_def parse_nat_str_int page_json_def)

lemma paged_page:
  assumes "search_params c a = Inr ps" and "0 < effective_page_size c a" and "0 \<le> offset"
  shows "delivered (paged_server db) (page_request c ps offset)
           = Inr (ok_response (page_json db (nat (effective_page_size c a)) (nat offset)))"
  using assms search_params_keys [OF assms(1)]
  by (simp add: delivered_def paged_server_def first_request_def page_request_def ok_response_def
        raise_for_status_def parse_nat_str_int page_json_def map_add_def)

lemma extend_results_pages:
  "extend_results acc (map (\<lambda>offset. ok_response (page_json db page (f offset))) offsets)
     = Inr (acc @ concat (map (\<lambda>offset. take page (drop (f offset) db)) offsets))"
  by (induction offsets arbitrary: acc) (simp_all add: ok_response_def page_json_def)

lemma concat_chunks:
  "concat (map (\<lambda>k. take page (drop (start + k * page) db)) [0 ..< n])
     = take (n * page) (drop start db)"
proof (induction n)
  case 0
  show ?case by simp
next
  case (Suc n)
  have "take (n * page + page) (drop start db)
          = take (n * page) (drop start db) @ take page (drop (n * page) (drop start db))"
    by (rule take_add)
  with Suc show ?case by (simp add: add.commute)
qed

lemma take_eq_if_min: "min i (length xs) = min j (length xs) \<Longrightarrow> take i xs = take j xs"
  by (metis take_all_iff min_def nat_le_linear)

lemma fanout_covers:
  fixes P R :: int
  assumes "0 < P"
  shows "R - P \<le> ((R - P - 1) div P + 1) * P"
proof -
  let ?x = "R - P - 1"
  have "?x mod P < P" using assms by simp
  moreover have "?x = ?x div P * P + ?x mod P" by simp
  ultimately have "?x < ?x div P * P + P" by linarith
  then show ?thesis by (simp add: algebra_simps)
qed

lemma fanout_below:
  fixes P R :: int
  assumes "0 < P"
  shows "((R - P - 1) div P + 1) * P < R"
proof -
  let ?x = "R - P - 1"
  have "0 \<le> ?x mod P" using assms by simp
  moreover have "?x = ?x div P * P + ?x mod P" by simp
  ultimately have "?x div P * P \<le> ?x" by linarith
  then show ?thesis by (simp add: algebra_simps)
qed

lemma ceiling_pages:
  fixes P R :: int
  assumes "0 < P"
  shows "\<lceil>real_of_int R / real_of_int P\<rceil> = (R - P - 1) div P + 2"
proof (rule ceiling_unique)
  let ?m = "(R - P - 1) div P + 2"
  have "?m - 1 = (R - P - 1) div P + 1" by simp
  then have "(?m - 1) * P < R" using fanout_below [OF assms, of R] by (simp only:)
  then have "real_of_int ((?m - 1) * P) < real_of_int R" by linarith
  then show "real_of_int ?m - 1 < real_of_int R / real_of_int P"
    using assms by (simp add: pos_less_divide_eq)
  have "R \<le> ?m * P" using fanout_covers [OF assms, of R] by (simp add: algebra_simps)
  then have "real_of_int R \<le> real_of_int (?m * P)" by linarith
  then show "real_of_int R / real_of_int P \<le> real_of_int ?m"
    using assms by (simp add: pos_divide_le_eq)
qed

lemma ceiling_one_page:
  fixes P R :: int
  assumes "0 < P" and "R \<le> P"
  shows "\<lceil>real_of_int R / real_of_int P\<rceil> \<le> 1"
  using assms by (simp add: ceiling_le_iff)

lemma gather_paged:
  assumes "search_params c a = Inr ps" and "0 < effective_page_size c a"
      and "\<forall>offset \<in> set offsets. 0 \<le> offset"
  shows "fst (gather (map (\<lambda>offset. (delivered (paged_server db) (page_request c ps offset),
                                     [page_request c ps offset])) offsets))
           = Inr (map (\<lambda>offset. ok_response
                                   (page_json db (nat (effective_page_size c a)) (nat offset)))
                    offsets)"
proof -
  have "map (\<lambda>offset. (delivered (paged_server db) (page_request c ps offset),
                       [page_request c ps offset])) offsets
          = map (\<lambda>offset. (Inr (ok_response
                                   (page_json db (nat (effective_page_size c a)) (nat offset))),
                           [page_request c ps offset])) offsets"
    using assms(3) by (intro map_cong refl) (simp add: paged_page [OF assms(1,2)])
  then show ?thesis by (simp only: gather_all_ok fst_conv)
qed

lemma merged_pages:
  fixes p n start :: nat
  shows "extend_results acc
           (map (\<lambda>offset. ok_response (page_json db p (nat offset)))
              (map (\<lambda>k. int start + int k * int p) [0 ..< n]))
         = Inr (acc @ take (n * p) (drop start db))"
proof -
  have "nat (int start + int k * int p) = start + k * p" for k
    by (simp add: nat_add_distrib nat_mult_distrib)
  then have "concat (map (\<lambda>offset. take p (drop (nat offset) db))
                       (map (\<lambda>k. int start + int k * int p) [0 ..< n]))
               = concat (map (\<lambda>k. take p (drop (start + k * p) db)) [0 ..< n])"
    by (simp add: comp_def)
  then show ?thesis
    by (simp only: extend_results_pages concat_chunks)
qed

lemma py_range_ascending:
  fixes start :: nat
  assumes "0 < P"
  shows "py_range (int start) stop P
           = Inr (map (\<lambda>k. int start + int k * int (nat P)) [0 ..< range_len (int start) stop P])"
  using assms by (simp add: py_range_def)

text \<open>The run of search against the paged server, past the two early returns.\<close>

lemma search_paged_fanout:
  assumes params: "search_params c a = Inr ps"
      and pos: "0 < effective_page_size c a"
      and not0: "limit a \<noteq> Some 0"
      and more: "\<not> (case limit a of None \<Rightarrow> False
                     | Some l \<Rightarrow> l \<le> int (length (take (nat (effective_page_size c a)) db)))"
  shows "search c (paged_server db) a
     = (Inr (apply_limit (limit a)
               (take (nat (effective_page_size c a)) db
                  @ take (range_len (int (length (take (nat (effective_page_size c a)) db)))
                            (results_wanted a db) (effective_page_size c a)
                          * nat (effective_page_size c a))
                      (drop (length (take (nat (effective_page_size c a)) db)) db))),
        first_request c ps
          # map (page_request c ps)
              (map (\<lambda>k. int (length (take (nat (effective_page_size c a)) db))
                           + int k * int (nat (effective_page_size c a)))
                 [0 ..< range_len (int (length (take (nat (effective_page_size c a)) db)))
                          (results_wanted a db) (effective_page_size c a)]))"
proof -
  let ?P = "effective_page_size c a"
  let ?rs = "take (nat ?P) db"
  let ?j = "page_json db (nat ?P) 0"
  let ?n = "range_len (int (length ?rs)) (results_wanted a db) ?P"
  let ?offsets = "map (\<lambda>k. int (length ?rs) + int k * int (nat ?P)) [0 ..< ?n]"
  have first: "delivered (paged_server db) (first_request c ps) = Inr (ok_response ?j)"
    by (rule paged_first [OF params pos])
  have j: "json (ok_response ?j) = Some ?j" by (simp add: ok_response_def)
  have rs: "first_results ?j = ?rs" by (simp add: first_results_def page_json_def)
  have total: "total_results_found ?j = Some (int (length db))"
    by (simp add: total_results_found_def page_json_def)
  have wanted: "(case limit a of None \<Rightarrow> int (length db) | Some l \<Rightarrow> min l (int (length db)))
                  = results_wanted a db"
    by (simp add: results_wanted_def)
  have range: "py_range (int (length ?rs)) (results_wanted a db) ?P = Inr ?offsets"
    by (rule py_range_ascending [OF pos])
  have nonneg: "\<forall>offset \<in> set ?offsets. 0 \<le> offset" by auto
  have gathered: "fst (gather (map (\<lambda>offset. (delivered (paged_server db) (page_request c ps offset),
                                     [page_request c ps offset])) ?offsets))
           = Inr (map (\<lambda>offset. ok_response (page_json db (nat ?P) (nat offset))) ?offsets)"
    by (rule gather_paged [OF params pos nonneg])
  have merged: "extend_results ?rs
                  (map (\<lambda>offset. ok_response (page_json db (nat ?P) (nat offset))) ?offsets)
                = Inr (?rs @ take (?n * nat ?P) (drop (length ?rs) db))"
    by (rule merged_pages)
  show ?thesis
    unfolding search_unfold [OF params] first sum.case j option.case Let_def rs total wanted
      range gathered merged
    using not0 more by simp
qed

lemma search_paged_first_only:
  assumes params: "search_params c a = Inr ps"
      and pos: "0 < effective_page_size c a"
      and early: "limit a = Some l" "l \<le> int (length (take (nat (effective_page_size c a)) db))"
  shows "search c (paged_server db) a
           = (Inr (py_take l (take (nat (effective_page_size c a)) db)), [first_request c ps])"
proof -
  let ?j = "page_json db (nat (effective_page_size c a)) 0"
  have first: "delivered (paged_server db) (first_request c ps) = Inr (ok_response ?j)"
    by (rule paged_first [OF params pos])
  have j: "json (ok_response ?j) = Some ?j" by (simp add: ok_response_def)
  have rs: "first_results ?j = take (nat (effective_page_size c a)) db"
    by (simp add: first_results_def page_json_def)
  show ?thesis
    unfolding search_unfold [OF params] first sum.case j option.case Let_def rs
    using early by (simp add: apply_limit_def py_take_def)
qed

lemma apply_limit_take:
  assumes "\<forall>l. limit a = Some l \<longrightarrow> 0 \<le> l" and "results_wanted a db \<le> int m"
  shows "apply_limit (limit a) (take m db) = take (nat (results_wanted a db)) db"
proof (cases "limit a")
  case None
  with assms(2) show ?thesis by (simp add: apply_limit_def results_wanted_def)
next
  case (Some l)
  with assms(1) have l: "0 \<le> l" by simp
  have "min (min (nat l) m) (length db) = min (nat (min l (int (length db)))) (length db)"
    using assms(2) l Some by (auto simp add: results_wanted_def min_def split: if_splits)
  then have "take (min (nat l) m) db = take (nat (min l (int (length db)))) db"
    by (rule take_eq_if_min)
  then show ?thesis using l Some by (simp add: apply_limit_def py_take_def results_wanted_def)
qed

text \<open>
  C2, as the code has it: against a server that returns the records at each offset,
  with a positive page size \<open>P\<close>, \<open>T\<close> matching records and a limit \<open>L\<close> that is absent or
  not negative, \<^verbatim>\<open>search\<close> returns the first \<open>min(L, T)\<close> records (all \<open>T\<close> with no limit) in
  the order of the server, and issues \<open>max(1, ceil(min(L, T) / P))\<close> requests: the first
  page is always requested, also when \<open>T = 0\<close> or \<open>L = 0\<close>, and the fan-out requests are
  those of the offsets \<open>P\<close>, \<open>2 * P\<close>, and so on, in that order.
\<close>

theorem pagination_completeness:
  assumes params: "search_params c a = Inr ps"
      and pos: "0 < effective_page_size c a"
      and lim: "\<forall>l. limit a = Some l \<longrightarrow> 0 \<le> l"
  shows "fst (search c (paged_server db) a) = Inr (take (nat (results_wanted a db)) db)
       \<and> int (length (snd (search c (paged_server db) a)))
           = max 1 \<lceil>real_of_int (results_wanted a db) / real_of_int (effective_page_size c a)\<rceil>
       \<and> snd (search c (paged_server db) a)
           = first_request c ps
             # map (\<lambda>k. page_request c ps (int (Suc k) * effective_page_size c a))
                 [0 ..< nat (max 1 \<lceil>real_of_int (results_wanted a db)
                                      / real_of_int (effective_page_size c a)\<rceil>) - 1]"
proof -
  define P where "P = effective_page_size c a"
  define p where "p = nat P"
  define R where "R = results_wanted a db"
  define rs where "rs = take p db"
  define n where "n = range_len (int (length rs)) R P"
  have P: "int p = P" and P0: "0 < P" using pos by (simp_all add: p_def P_def)
  have RT: "R \<le> int (length db)" by (simp add: R_def results_wanted_def split: option.splits)
  show ?thesis
  proof (cases "case limit a of None \<Rightarrow> False | Some l \<Rightarrow> l \<le> int (length rs)")
    case True
    then obtain l where l: "limit a = Some l" "l \<le> int (length rs)"
      by (auto split: option.splits)
    from lim l have l0: "0 \<le> l" by simp
    have Rl: "R = l" using l by (simp add: R_def results_wanted_def rs_def)
    have run: "search c (paged_server db) a = (Inr (py_take l rs), [first_request c ps])"
      using search_paged_first_only [OF params pos, of l db] l
      by (simp add: rs_def p_def P_def)
    have "nat l \<le> p" using l0 l(2) by (simp add: rs_def)
    then have "py_take l rs = take (nat l) db"
      using l0 by (simp add: py_take_def min_absorb1 rs_def)
    moreover have "\<lceil>real_of_int l / real_of_int P\<rceil> \<le> 1"
      using l(2) P0 P by (intro ceiling_one_page) (auto simp: rs_def)
    then have "max 1 \<lceil>real_of_int l / real_of_int P\<rceil> = 1" by simp
    ultimately show ?thesis
      using Rl by (simp add: run R_def [symmetric] P_def [symmetric])
  next
    case False
    then have not0: "limit a \<noteq> Some 0" by auto
    have run: "search c (paged_server db) a
       = (Inr (apply_limit (limit a) (rs @ take (n * p) (drop (length rs) db))),
          first_request c ps
            # map (page_request c ps) (map (\<lambda>k. int (length rs) + int k * int p) [0 ..< n]))"
      using search_paged_fanout [OF params pos not0, of db] False
      unfolding rs_def p_def P_def n_def R_def by blast
    have count: "int (length (snd (search c (paged_server db) a))) = 1 + int n"
      by (simp add: run)
    have merged_covers:
      "rs @ take (n * p) (drop (length rs) db) = take (p + n * p) db
       \<and> R \<le> int (p + n * p)
       \<and> max 1 \<lceil>real_of_int R / real_of_int P\<rceil> = 1 + int n
       \<and> map (\<lambda>k. int (length rs) + int k * int p) [0 ..< n]
           = map (\<lambda>k. int (Suc k) * P) [0 ..< n]"
    proof (cases "length db \<le> p")
      case True
      then have rs: "rs = db" "length rs = length db" by (simp_all add: rs_def)
      have n0: "n = 0" using RT P0 by (simp add: n_def range_len_def rs)
      have "\<lceil>real_of_int R / real_of_int P\<rceil> \<le> 1"
        using RT True P0 P by (intro ceiling_one_page) auto
      moreover have "R \<le> int p" using RT True by simp
      ultimately show ?thesis using True by (simp add: n0 rs)
    next
      case big: False
      then have len: "length rs = p" by (simp add: rs_def)
      have PR: "P < R"
        using False big P by (simp add: R_def results_wanted_def len split: option.splits)
      have "0 \<le> (R - P - 1) div P" using PR P0 by (simp add: pos_imp_zdiv_nonneg_iff)
      then have n: "int n = (R - P - 1) div P + 1"
        using PR P0 by (simp add: n_def range_len_def len P)
      have "R \<le> int (p + n * p)"
        using fanout_covers [OF P0, of R] n P by (simp add: algebra_simps)
      moreover have "rs @ take (n * p) (drop (length rs) db) = take (p + n * p) db"
        unfolding len by (simp only: rs_def take_add)
      moreover have "\<lceil>real_of_int R / real_of_int P\<rceil> = 1 + int n"
        using ceiling_pages [OF P0, of R] n by simp
      moreover have "int (length rs) + int k * int p = int (Suc k) * P" for k
        by (simp add: len P algebra_simps)
      ultimately show ?thesis by simp
    qed
    then have "apply_limit (limit a) (rs @ take (n * p) (drop (length rs) db))
                 = take (nat R) db"
      using apply_limit_take [OF lim, of db "p + n * p"] by (simp add: R_def)
    moreover have "nat (1 + int n) - 1 = n" by simp
    ultimately show ?thesis
      using merged_covers count
      by (simp add: run R_def [symmetric] P_def [symmetric] comp_def)
  qed
qed

theorem pagination_completeness_witness:
  "search_params (init_client ''https://igloo.example.com'' ''10'' 2)
       (default_args\<lparr>limit := Some 3\<rparr>)
     = Inr [(''limit'', ''2''), (''searchAll'', ''true''), (''includeMicroblog'', ''true''),
            (''includeArchived'', ''false'')]
   \<and> 0 < effective_page_size (init_client ''https://igloo.example.com'' ''10'' 2)
           (default_args\<lparr>limit := Some 3\<rparr>)
   \<and> limit (default_args\<lparr>limit := Some 3\<rparr>) = Some 3
   \<and> fst (search (init_client ''https://igloo.example.com'' ''10'' 2)
             (paged_server [10, 20, 30, 40, 50 :: nat]) (default_args\<lparr>limit := Some 3\<rparr>))
       = Inr [10, 20, 30]
   \<and> length (snd (search (init_client ''https://igloo.example.com'' ''10'' 2)
             (paged_server [10, 20, 30, 40, 50 :: nat]) (default_args\<lparr>limit := Some 3\<rparr>)))
       = 2"
proof -
  let ?c = "init_client ''https://igloo.example.com'' ''10'' 2"
  let ?a = "default_args\<lparr>limit := Some 3\<rparr>"
  let ?ps = "[(''limit'', ''2''), (''searchAll'', ''true''), (''includeMicroblog'', ''true''),
              (''includeArchived'', ''false'')]"
  let ?db = "[10, 20, 30, 40, 50 :: nat]"
  have p: "search_params ?c ?a = Inr ?ps" by code_simp
  have z: "0 < effective_page_size ?c ?a"
    by (simp add: effective_page_size_def default_args_def init_client_def)
  have l: "\<forall>l. limit ?a = Some l \<longrightarrow> 0 \<le> l" by simp
  have w: "results_wanted ?a ?db = 3" by (simp add: results_wanted_def)
  have e: "effective_page_size ?c ?a = 2"
    by (simp add: effective_page_size_def default_args_def init_client_def)
  have c: "\<lceil>real_of_int 3 / real_of_int 2\<rceil> = (2::int)"
    by (simp add: ceiling_eq_iff)
  from pagination_completeness [OF p z l, of ?db] p z show ?thesis
    unfolding w e c by simp
qed

text \<open>
  The claim as the specification words it counts \<open>ceil(min(L or T, T) / P)\<close> requests,
  which is 0 when nothing matches. The first page is requested all the same.
\<close>

theorem pagination_completeness_counterexample:
  "length (snd (search (init_client ''https://igloo.example.com'' ''10'' 50)
                  (paged_server ([] :: nat list)) default_args)) = 1
   \<and> \<lceil>real_of_int (results_wanted default_args ([] :: nat list))
        / real_of_int (effective_page_size (init_client ''https://igloo.example.com'' ''10'' 50)
                         default_args)\<rceil> = 0"
proof -
  have "length (snd (search (init_client ''https://igloo.example.com'' ''10'' 50)
                  (paged_server ([] :: nat list)) default_args)) = 1"
    by code_simp
  then show ?thesis by (simp add: results_wanted_def default_args_def)
qed

section \<open>Continuation\<close>

lemma window_complete:
  "status (snd (truncate_window doc s m)) = COMPLETE
     \<longleftrightarrow> length (doc_text doc) \<le> s + min m (length (doc_text doc) - s)"
  by (auto simp add: truncate_window_def Let_def min_def)

lemma window_text: "fst (truncate_window doc s m) = take m (drop s (doc_text doc))"
  by (simp add: truncate_window_def Let_def)

lemma window_next:
  "next_start_index (snd (truncate_window doc s m))
     = (if length (doc_text doc) \<le> s + min m (length (doc_text doc) - s) then None
        else Some (int (s + min m (length (doc_text doc) - s))))"
  by (auto simp add: truncate_window_def Let_def min_def)

lemma window_stuck:
  "s < length (doc_text doc) \<Longrightarrow> status (snd (truncate_window doc s 0)) = PARTIAL"
  "s < length (doc_text doc) \<Longrightarrow> next_start_index (snd (truncate_window doc s 0)) = Some (int s)"
  by (simp_all add: truncate_window_def Let_def)

lemma zero_budget_never_completes:
  assumes "fetch_until_complete doc m s = Some ws"
  shows "\<not> (m = 0 \<and> s < length (doc_text doc))"
proof (rule fetch_until_complete.raw_induct
         [where P = "\<lambda>doc m s ws. \<not> (m = 0 \<and> s < length (doc_text doc))", OF _ assms])
  fix fetch :: "FetchableDocument \<Rightarrow> nat \<Rightarrow> nat \<Rightarrow> string list option"
    and doc m s ws
  assume IH: "\<And>doc m s ws. fetch doc m s = Some ws \<Longrightarrow> \<not> (m = 0 \<and> s < length (doc_text doc))"
    and step: "(if status (snd (truncate_window doc s m)) = COMPLETE
      then Some [fst (truncate_window doc s m)]
      else Option.bind (next_start_index (snd (truncate_window doc s m)))
            (\<lambda>next. Option.bind (fetch doc m (nat next))
                 (\<lambda>rest. Some (fst (truncate_window doc s m) # rest)))) = Some ws"
  show "\<not> (m = 0 \<and> s < length (doc_text doc))"
  proof
    assume z: "m = 0 \<and> s < length (doc_text doc)"
    with step have "Option.bind (fetch doc 0 s) (\<lambda>rest. Some (fst (truncate_window doc s 0) # rest)) = Some ws"
      by (simp add: window_stuck)
    then obtain rest where "fetch doc 0 s = Some rest" by (auto split: bind_splits)
    from IH [OF this] z show False by simp
  qed
qed

lemma fetch_last_window:
  assumes "length (doc_text doc) \<le> s + min m (length (doc_text doc) - s)"
  shows "fetch_until_complete doc m s = Some [drop s (doc_text doc)]"
proof -
  have c: "status (snd (truncate_window doc s m)) = COMPLETE"
    using assms by (simp only: window_complete)
  have "length (drop s (doc_text doc)) \<le> m" using assms by (simp add: min_def split: if_splits)
  then have w: "fst (truncate_window doc s m) = drop s (doc_text doc)"
    by (simp add: window_text)
  show ?thesis
    by (subst fetch_until_complete.simps) (simp add: c w)
qed

lemma fetch_next_window:
  assumes "\<not> length (doc_text doc) \<le> s + min m (length (doc_text doc) - s)"
  shows "fetch_until_complete doc m s
           = Option.bind (fetch_until_complete doc m (s + m))
               (\<lambda>rest. Some (take m (drop s (doc_text doc)) # rest))"
proof -
  have c: "status (snd (truncate_window doc s m)) \<noteq> COMPLETE"
    using assms by (simp only: window_complete not_False_eq_True)
  have "min m (length (doc_text doc) - s) = m" using assms by (simp add: min_def split: if_splits)
  with assms have n: "next_start_index (snd (truncate_window doc s m)) = Some (int (s + m))"
    by (simp only: window_next if_False)
  have "nat (int s + int m) = s + m" by simp
  then show ?thesis
    by (subst fetch_until_complete.simps) (simp add: c n window_text)
qed

lemma fetch_from:
  assumes "0 < m"
  shows "\<exists>ws. fetch_until_complete doc m s = Some ws \<and> concat ws = drop s (doc_text doc)"
proof (induction "length (doc_text doc) - s" arbitrary: s rule: less_induct)
  case less
  show ?case
  proof (cases "length (doc_text doc) \<le> s + min m (length (doc_text doc) - s)")
    case True
    then show ?thesis by (simp add: fetch_last_window)
  next
    case False
    then have "s + m < length (doc_text doc)" by (simp add: min_def split: if_splits)
    then have "length (doc_text doc) - (s + m) < length (doc_text doc) - s"
      using assms by simp
    from less [OF this] obtain ws where
      ws: "fetch_until_complete doc m (s + m) = Some ws" "concat ws = drop (s + m) (doc_text doc)"
      by blast
    have "take m (drop s (doc_text doc)) @ drop (s + m) (doc_text doc) = drop s (doc_text doc)"
      by (metis append_take_drop_id drop_drop add.commute)
    with ws show ?thesis by (simp add: fetch_next_window [OF False])
  qed
qed

text \<open>
  C3, for a budget of at least one character: from \<open>start_index = 0\<close>, feeding each
  \<open>next_start_index\<close> back, the protocol reaches a complete window, and the windows
  returned, concatenated in order, are the document.
\<close>

theorem continuation_reconstructs_document:
  assumes "0 < max_chars"
  shows "\<exists>windows. fetch_until_complete doc max_chars 0 = Some windows
                   \<and> concat windows = doc_text doc"
  using fetch_from [OF assms, of doc 0] by simp

theorem continuation_reconstructs_document_witness:
  "(0::nat) < 4
   \<and> fetch_until_complete \<lparr>doc_text = ''hello world'', table_of_contents = []\<rparr> 4 0
       = Some [''hell'', ''o wo'', ''rld'']
   \<and> concat [''hell'', ''o wo'', ''rld''] = ''hello world''"
proof -
  let ?d = "\<lparr>doc_text = ''hello world'', table_of_contents = []\<rparr>"
  have pos: "(0::nat) < 4" by simp
  have a: "fetch_until_complete ?d 4 8 = Some [''rld'']"
    by (subst fetch_last_window) simp_all
  have b: "fetch_until_complete ?d 4 4 = Some [''o wo'', ''rld'']"
    using fetch_next_window [of ?d 4 4] a by simp
  have e: "fetch_until_complete ?d 4 0 = Some [''hell'', ''o wo'', ''rld'']"
    using fetch_next_window [of ?d 0 4] b by simp
  from continuation_reconstructs_document [OF pos, of ?d] pos e show ?thesis by simp
qed

text \<open>
  The claim as the specification words it is for every budget. With \<open>max_chars = 0\<close>
  and a document that is not empty, every window is empty and partial, and carries the
  \<open>next_start_index\<close> it was asked for: the protocol never reaches a complete window.
\<close>

theorem continuation_counterexample:
  "truncate_window \<lparr>doc_text = ''ab'', table_of_contents = []\<rparr> 0 0
     = ('''', \<lparr>status = PARTIAL, chars_returned = 0, chars_total = 2, next_start_index = Some 0,
              current_path = None, remaining_sections = []\<rparr>)
   \<and> fetch_until_complete \<lparr>doc_text = ''ab'', table_of_contents = []\<rparr> 0 0 = None"
proof -
  have "fetch_until_complete \<lparr>doc_text = ''ab'', table_of_contents = []\<rparr> 0 0 = None"
  proof (cases "fetch_until_complete \<lparr>doc_text = ''ab'', table_of_contents = []\<rparr> 0 0")
    case None
    then show ?thesis .
  next
    case (Some ws)
    from zero_budget_never_completes [OF this] show ?thesis by simp
  qed
  then show ?thesis by (simp add: truncate_window_def)
qed

section \<open>Percentage\<close>

text \<open>
  The division on known values: \<^verbatim>\<open>(1 / 3).hex()\<close> is \<^verbatim>\<open>0x1.5555555555555p-2\<close> and
  \<^verbatim>\<open>(1 / 10).hex()\<close> is \<^verbatim>\<open>0x1.999999999999ap-4\<close>; \<open>2 ^ 1024 - 2 ^ 970\<close> is the least
  integer that no longer converts to a float; \<open>2 ^ -1074\<close> is the least positive float,
  and half of it rounds to zero.
\<close>

lemma py_truediv_examples:
  "py_truediv 1 3 = Inr (Float 6004799503160661 (- 54))"
  "py_truediv 1 10 = Inr (Float 7205759403792794 (- 56))"
  "py_truediv (- 7) 2 = Inr (Float (- 7881299347898368) (- 51))"
  "py_truediv 1 0 = Inl ZeroDivisionError"
  "py_truediv (2 ^ 1024 - 2 ^ 970 - 1) 1 = Inr (Float 9007199254740991 971)"
  "py_truediv (2 ^ 1024 - 2 ^ 970) 1 = Inl OverflowError"
  "py_truediv 1 (2 ^ 1074) = Inr (Float 1 (- 1074))"
  "py_truediv 1 (2 ^ 1075) = Inr (Float 0 (- 1074))"
  by code_simp+

lemma py_int_examples:
  "py_int (Float (- 7881299347898368) (- 51)) = - 3"
  "py_int (Float 6004799503160661 (- 54)) = 0"
  "py_int (Float 3 2) = 12"
  by code_simp+

lemma bit_length_bounds:
  "0 < n \<Longrightarrow> 1 \<le> bit_length n \<and> 2 ^ nat (bit_length n - 1) \<le> n \<and> n < 2 ^ nat (bit_length n)"
proof (induction n rule: bit_length.induct)
  case (1 n)
  show ?case
  proof (cases "n div 2 \<le> 0")
    case True
    with 1(2) have "n = 1" by linarith
    then show ?thesis by (simp add: bit_length.simps [of 1] bit_length.simps [of 0])
  next
    case False
    then have h: "0 < n div 2" by simp
    with 1 have IH: "1 \<le> bit_length (n div 2)"
      "2 ^ nat (bit_length (n div 2) - 1) \<le> n div 2" "n div 2 < 2 ^ nat (bit_length (n div 2))"
      by simp_all
    define b where "b = nat (bit_length (n div 2) - 1)"
    have bl: "bit_length n = int b + 2"
      using 1(2) IH(1) by (subst bit_length.simps) (simp add: b_def)
    have b1: "nat (bit_length (n div 2)) = Suc b" using IH(1) by (simp add: b_def)
    have lo: "(2::int) ^ b \<le> n div 2" using IH(2) by (simp add: b_def)
    have hi: "n div 2 < 2 * 2 ^ b" using IH(3) by (simp add: b1)
    have "nat (bit_length n - 1) = Suc b" and "nat (bit_length n) = Suc (Suc b)"
      by (simp_all add: bl)
    moreover have "2 * 2 ^ b \<le> n" using lo by linarith
    moreover have "n < 2 * (2 * 2 ^ b)" using hi by linarith
    ultimately show ?thesis by (simp add: bl)
  qed
qed

lemma floor_log2_ratio_small:
  assumes "0 < n" and "0 < d" and "n \<le> 100 * d"
  shows "floor_log2_ratio n d \<le> 6"
proof (rule ccontr)
  assume "\<not> floor_log2_ratio n d \<le> 6"
  then have big: "7 \<le> floor_log2_ratio n d" by simp
  define k where "k = bit_length n - bit_length d"
  show False
  proof (cases "ratio_ge_pow2 n d k")
    case True
    with big have k7: "7 \<le> k" by (simp add: floor_log2_ratio_def k_def Let_def)
    then have "(2::int) ^ 7 \<le> 2 ^ nat k" by (intro power_increasing) auto
    then have "d * 128 \<le> d * 2 ^ nat k" using assms(2) by simp
    moreover from True k7 have "d * 2 ^ nat k \<le> n" by (simp add: ratio_ge_pow2_def)
    ultimately show False using assms by linarith
  next
    case False
    with big have k8: "8 \<le> k" by (simp add: floor_log2_ratio_def k_def Let_def)
    from bit_length_bounds [OF assms(1)] have n: "2 ^ nat (bit_length n - 1) \<le> n" by simp
    from bit_length_bounds [OF assms(2)] have d: "d < 2 ^ nat (bit_length d)"
      and d1: "1 \<le> bit_length d" by simp_all
    have "nat (bit_length d) + 7 \<le> nat (bit_length n - 1)" using k8 d1 by (simp add: k_def)
    then have "(2::int) ^ (nat (bit_length d) + 7) \<le> 2 ^ nat (bit_length n - 1)"
      by (intro power_increasing) auto
    then have "2 ^ nat (bit_length d) * 128 \<le> n" using n by (simp add: power_add)
    with d assms show False by linarith
  qed
qed

lemma round_half_even_div_bounds:
  assumes "0 < d"
  shows "n div d \<le> round_half_even_div n d"
    and "round_half_even_div n d \<le> n div d + 1"
    and "n mod d = 0 \<Longrightarrow> round_half_even_div n d = n div d"
  using assms by (simp_all add: round_half_even_div_def Let_def)

lemma truediv_small_ratio:
  assumes "0 < n" and "0 < d" and "n \<le> 100 * d"
  shows "\<exists>j. 46 \<le> j \<and> py_truediv n d = Inr (Float (round_half_even_div (n * 2 ^ j) d) (- int j))"
proof -
  define e where "e = floor_log2_ratio n d"
  define j where "j = nat (52 - max e (- 1022))"
  have e6: "e \<le> 6" unfolding e_def by (rule floor_log2_ratio_small [OF assms])
  then have ulp: "max e (- 1022) - 52 = - int j" and j: "46 \<le> j" and neg: "\<not> 0 \<le> - int j"
    by (simp_all add: j_def)
  have "py_truediv n d = Inr (Float (round_half_even_div (n * 2 ^ j) d) (- int j))"
    using assms(1,2) e6 neg
    by (simp add: py_truediv_def Let_def e_def [symmetric] ulp)
  with j show ?thesis by blast
qed

lemma int_div_less:
  fixes a d q :: int
  assumes "0 < d" and "a < q * d"
  shows "a div d < q"
proof -
  have "0 \<le> a mod d" using assms(1) by simp
  moreover have "a div d * d + a mod d = a" by simp
  ultimately have "a div d * d < q * d" using assms(2) by linarith
  then show ?thesis using assms(1) by (simp add: mult_less_cancel_right_pos)
qed

lemma scaled_round_range:
  assumes "0 < d" and "0 \<le> n" and "n \<le> 100 * d" and "0 < K"
  shows "0 \<le> round_half_even_div (n * K) d" and "round_half_even_div (n * K) d div K \<le> 100"
proof -
  let ?m = "round_half_even_div (n * K) d"
  have "0 \<le> n * K" using assms by simp
  then have "0 \<le> (n * K) div d" using assms(1) by (simp add: pos_imp_zdiv_nonneg_iff)
  with round_half_even_div_bounds(1) [OF assms(1), of "n * K"] show "0 \<le> ?m" by linarith
  have "?m \<le> 100 * K"
  proof (cases "n = 100 * d")
    case True
    then have eq: "n * K = (100 * K) * d" by simp
    have "(n * K) div d = 100 * K" "(n * K) mod d = 0"
      unfolding eq using assms(1) by simp_all
    with round_half_even_div_bounds(3) [OF assms(1), of "n * K"] show ?thesis by simp
  next
    case False
    with assms have "n < 100 * d" by simp
    then have "n * K < (100 * K) * d" using assms(4) by simp
    with assms(1) have "(n * K) div d < 100 * K" by (rule int_div_less)
    with round_half_even_div_bounds(2) [OF assms(1), of "n * K"] show ?thesis by linarith
  qed
  then have "?m div K \<le> (100 * K) div K" by (intro zdiv_mono1) (use assms in auto)
  then show "?m div K \<le> 100" using assms(4) by simp
qed

lemma scaled_round_exact:
  assumes "0 < d" and "0 \<le> n" and "0 < K" and "d < 2 * K"
  shows "round_half_even_div (n * K) d div K = n div d"
proof -
  let ?m = "round_half_even_div (n * K) d"
  define f where "f = n div d"
  define r where "r = n mod d"
  define q where "q = (r * K) div d"
  define t where "t = (r * K) mod d"
  have n: "n = f * d + r" and r: "0 \<le> r" "r < d" using assms(1) by (simp_all add: f_def r_def)
  have K: "0 < K" by (rule assms(3))
  have NK: "n * K = (f * K) * d + r * K" by (simp add: n algebra_simps)
  have quot: "(n * K) div d = f * K + q" and rem: "(n * K) mod d = t"
    using assms(1) by (simp_all add: NK q_def t_def)
  have rK: "r * K = q * d + t" and t: "0 \<le> t" "t < d"
    using assms(1) by (simp_all add: q_def t_def)
  have "r * K \<le> (d - 1) * K" using r K by (intro mult_right_mono) auto
  moreover have "(d - 1) * K = d * K - K" by (simp add: algebra_simps)
  ultimately have le: "q * d + t \<le> d * K - K" using rK by linarith
  have q0: "0 \<le> q" using r K assms(1) by (simp add: q_def pos_imp_zdiv_nonneg_iff)
  have "d * K = K * d" by simp
  then have "q * d < K * d" using le t K by linarith
  then have qK: "q < K" using assms(1) by (simp add: mult_less_cancel_right_pos)
  have hi: "?m < f * K + K"
  proof (cases "q = K - 1")
    case True
    have "(K - 1) * d = K * d - d" by (simp add: algebra_simps)
    then have "q * d = K * d - d" by (simp only: True)
    moreover have "d * K = K * d" by simp
    ultimately have "t \<le> d - K" using le by linarith
    with assms(4) have "2 * t < d" by linarith
    then have "?m = f * K + q"
      by (simp add: round_half_even_div_def Let_def quot rem)
    with qK show ?thesis by simp
  next
    case False
    with qK have "q + 1 < K" by simp
    with round_half_even_div_bounds(2) [OF assms(1), of "n * K"] quot show ?thesis by linarith
  qed
  have lo: "f * K \<le> ?m"
    using round_half_even_div_bounds(1) [OF assms(1), of "n * K"] quot q0 by linarith
  have "?m = K * f + (?m - f * K)" by simp
  moreover have "0 \<le> ?m - f * K" "?m - f * K < K" using lo hi by simp_all
  ultimately have "?m div K = f" by (rule int_div_pos_eq)
  then show ?thesis by (simp add: f_def)
qed

lemma py_int_scaled: "0 \<le> m \<Longrightarrow> 0 < j \<Longrightarrow> py_int (Float m (- int j)) = m div 2 ^ j"
  by (cases "m = 0") (simp_all add: py_int_def)

text \<open>
  C6, as the code has it: for \<open>0 \<le> chars_returned \<le> chars_total\<close> the percentage is
  computed without an error, lies between 0 and 100, and is 0 when \<open>chars_total\<close> is 0.
  It is \<open>floor(100 * chars_returned / chars_total)\<close> for every \<open>chars_total\<close> below
  \<open>2 ^ 47\<close>: the division is a float division, rounded to 53 bits before \<^verbatim>\<open>int\<close> truncates.
\<close>

theorem pct_bounds:
  assumes "0 \<le> chars_returned metadata"
      and "chars_returned metadata \<le> chars_total metadata"
  shows "\<exists>p. pct metadata = Inr p \<and> 0 \<le> p \<and> p \<le> 100
             \<and> (chars_total metadata = 0 \<longrightarrow> p = 0)
             \<and> (chars_total metadata < 2 ^ 47 \<longrightarrow>
                  p = \<lfloor>real_of_int (100 * chars_returned metadata)
                        / real_of_int (chars_total metadata)\<rfloor>)"
proof -
  define a where "a = chars_returned metadata"
  define b where "b = chars_total metadata"
  show ?thesis
  proof (cases "0 < a")
    case False
    with assms have a0: "a = 0" and "0 \<le> b" by (simp_all add: a_def b_def)
    then have "pct metadata = Inr 0"
      by (simp add: pct_def py_truediv_def py_int_def a_def [symmetric] b_def [symmetric])
    then show ?thesis using a0 by (simp add: a_def [symmetric])
  next
    case True
    with assms have b: "0 < b" and n: "0 < 100 * a" "100 * a \<le> 100 * b"
      by (simp_all add: a_def b_def)
    from truediv_small_ratio [OF n(1) b n(2)] obtain j where j: "46 \<le> j"
      and div: "py_truediv (100 * a) b
                  = Inr (Float (round_half_even_div (100 * a * 2 ^ j) b) (- int j))"
      by blast
    let ?m = "round_half_even_div (100 * a * 2 ^ j) b"
    have K: "(0::int) < 2 ^ j" by simp
    have m0: "0 \<le> ?m" and hi: "?m div 2 ^ j \<le> 100"
      using scaled_round_range [OF b _ n(2) K] n(1) by simp_all
    have p: "pct metadata = Inr (?m div 2 ^ j)"
      using b j m0 div
      by (simp add: pct_def a_def [symmetric] b_def [symmetric] py_int_scaled)
    have lo: "0 \<le> ?m div 2 ^ j" using m0 by (simp add: pos_imp_zdiv_nonneg_iff)
    have exact: "?m div 2 ^ j = \<lfloor>real_of_int (100 * a) / real_of_int b\<rfloor>" if "b < 2 ^ 47"
    proof -
      have "(2::int) ^ 46 \<le> 2 ^ j" using j by (intro power_increasing) auto
      moreover have "(2::int) ^ 47 = 2 * 2 ^ 46" by simp
      ultimately have "b < 2 * 2 ^ j" using that by linarith
      from scaled_round_exact [OF b _ K this, of "100 * a"] n(1)
      have "?m div 2 ^ j = (100 * a) div b" by simp
      then show ?thesis by (simp only: floor_divide_of_int_eq)
    qed
    show ?thesis
      using p lo hi b exact by (auto simp add: a_def b_def)
  qed
qed

theorem pct_bounds_witness:
  "(0::int) \<le> 49800 \<and> (49800::int) \<le> 125000
   \<and> pct \<lparr>status = PARTIAL, chars_returned = 49800, chars_total = 125000,
           next_start_index = Some 49800, current_path = None, remaining_sections = []\<rparr>
       = Inr 39
   \<and> pct \<lparr>status = COMPLETE, chars_returned = 0, chars_total = 0,
           next_start_index = None, current_path = None, remaining_sections = []\<rparr>
       = Inr 0"
proof -
  let ?m = "\<lparr>status = PARTIAL, chars_returned = 49800, chars_total = 125000,
           next_start_index = Some 49800, current_path = None, remaining_sections = []\<rparr>"
  let ?z = "\<lparr>status = COMPLETE, chars_returned = 0, chars_total = 0,
           next_start_index = None, current_path = None, remaining_sections = []\<rparr>"
  have f: "\<lfloor>real_of_int (100 * 49800) / real_of_int 125000\<rfloor> = 39"
    by (simp only: floor_divide_of_int_eq)
  from pct_bounds [of ?m] pct_bounds [of ?z] f show ?thesis by auto
qed

text \<open>
  The claim as the specification words it has the floor for all integers. For a total
  of \<open>2 ^ 47 + 1\<close> characters, the quotient \<open>69 - 1 / (2 ^ 47 + 1)\<close> rounds to the float
  69.0, and the percentage is 69 where the floor is 68.
\<close>

theorem pct_counterexample:
  "(0::int) \<le> 97108866965177 \<and> (97108866965177::int) \<le> 140737488355329
   \<and> pct \<lparr>status = PARTIAL, chars_returned = 97108866965177,
           chars_total = 140737488355329, next_start_index = Some 97108866965177,
           current_path = None, remaining_sections = []\<rparr> = Inr 69
   \<and> \<lfloor>real_of_int (100 * 97108866965177) / real_of_int 140737488355329\<rfloor> = 68"
proof -
  have "pct \<lparr>status = PARTIAL, chars_returned = 97108866965177,
           chars_total = 140737488355329, next_start_index = Some 97108866965177,
           current_path = None, remaining_sections = []\<rparr> = Inr 69"
    by code_simp
  moreover have "\<lfloor>real_of_int (100 * 97108866965177) / real_of_int 140737488355329\<rfloor> = 68"
    by (simp only: floor_divide_of_int_eq)
  ultimately show ?thesis by simp
qed

end
